(* ===== verification/Prelude.thy ===== *)
theory Prelude
  imports Main "HOL-Library.Word"
begin

unbundle bit_operations_syntax

text \<open>
  What every component of the development shares: the names of the machine types, the
  big-endian byte representation of unsigned integers, Rust strings with their UTF-8
  encoding, the decimal printing of numbers in error messages, and the collections of
  rewrite rules that the component proofs use.

  A Rust \<open>str\<close> or \<open>String\<close> is a \<^typ>\<open>string\<close> whose characters are the bytes of its
  UTF-8 encoding; \<open>as_bytes\<close> reads those bytes and \<open>from_utf8\<close> checks that a byte
  sequence is well formed before it becomes a string, as the standard library does.
\<close>

named_theorems wire_simps \<open>each writer of the wire format as an append to the buffer\<close>
named_theorems wire_reads \<open>each reader of the wire format at a position where its item starts\<close>

named_theorems keeps_rules \<open>code that leaves a part of its state alone\<close>
named_theorems evolve_rules \<open>code that changes a part of its state by given steps only\<close>

type_synonym u8 = "8 word"
type_synonym u16 = "16 word"
type_synonym u32 = "32 word"
type_synonym u64 = "64 word"
type_synonym bytes = "u8 list"

section \<open>Big-endian integers\<close>

text \<open>The \<open>k\<close> bytes of \<open>to_be_bytes\<close>, most significant first, and the value of a byte
  sequence read the same way.\<close>

fun be_bytes :: "nat \<Rightarrow> nat \<Rightarrow> bytes" where
  "be_bytes 0 v = []"
| "be_bytes (Suc k) v = be_bytes k (v div 256) @ [of_nat v]"

definition be_nat :: "bytes \<Rightarrow> nat" where
  "be_nat bs = foldl (\<lambda>a b. a * 256 + unat b) 0 bs"

definition to_be_bytes_u32 :: "u32 \<Rightarrow> bytes" where
  "to_be_bytes_u32 v = be_bytes 4 (unat v)"

definition from_be_bytes_u32 :: "bytes \<Rightarrow> u32" where
  "from_be_bytes_u32 bs = of_nat (be_nat bs)"

definition to_be_bytes_u64 :: "u64 \<Rightarrow> bytes" where
  "to_be_bytes_u64 v = be_bytes 8 (unat v)"

definition from_be_bytes_u64 :: "bytes \<Rightarrow> u64" where
  "from_be_bytes_u64 bs = of_nat (be_nat bs)"

text \<open>\<open>u32::saturating_add\<close>.\<close>

definition saturating_add_u32 :: "u32 \<Rightarrow> u32 \<Rightarrow> u32" where
  "saturating_add_u32 a b = (if unat a + unat b < 2 ^ 32 then a + b else 0xFFFFFFFF)"

section \<open>Strings\<close>

definition byte_of_char :: "char \<Rightarrow> u8" where
  "byte_of_char c = of_nat (of_char c)"

definition char_of_byte :: "u8 \<Rightarrow> char" where
  "char_of_byte b = char_of (unat b)"

definition as_bytes :: "string \<Rightarrow> bytes" where
  "as_bytes s = map byte_of_char s"

definition utf8_cont :: "u8 \<Rightarrow> bool" where
  "utf8_cont b \<longleftrightarrow> 0x80 \<le> b \<and> b \<le> 0xBF"

definition utf8_width :: "u8 \<Rightarrow> nat" where
  "utf8_width b =
     (if b < 0x80 then 1
      else if 0xC2 \<le> b \<and> b \<le> 0xDF then 2
      else if 0xE0 \<le> b \<and> b \<le> 0xEF then 3
      else if 0xF0 \<le> b \<and> b \<le> 0xF4 then 4
      else 0)"

definition utf8_second :: "u8 \<Rightarrow> u8 \<Rightarrow> bool" where
  "utf8_second b b1 =
     (if b = 0xE0 then 0xA0 \<le> b1 \<and> b1 \<le> 0xBF
      else if b = 0xED then 0x80 \<le> b1 \<and> b1 \<le> 0x9F
      else if b = 0xF0 then 0x90 \<le> b1 \<and> b1 \<le> 0xBF
      else if b = 0xF4 then 0x80 \<le> b1 \<and> b1 \<le> 0x8F
      else utf8_cont b1)"

text \<open>The first code point of a byte sequence: \<open>Inr n\<close> when it is well formed and takes
  \<open>n\<close> bytes, \<open>Inl n\<close> when the first \<open>n\<close> bytes are a maximal ill-formed part.\<close>

fun utf8_head :: "bytes \<Rightarrow> nat + nat" where
  "utf8_head [] = Inl 1"
| "utf8_head (b # bs) =
     (let w = utf8_width b in
      if w = 0 then Inl 1
      else if w = 1 then Inr 1
      else (case bs of
          [] \<Rightarrow> Inl 1
        | b1 # bs1 \<Rightarrow>
            if \<not> utf8_second b b1 then Inl 1
            else if w = 2 then Inr 2
            else (case bs1 of
                [] \<Rightarrow> Inl 2
              | b2 # bs2 \<Rightarrow>
                  if \<not> utf8_cont b2 then Inl 2
                  else if w = 3 then Inr 3
                  else (case bs2 of
                      [] \<Rightarrow> Inl 3
                    | b3 # bs3 \<Rightarrow> if utf8_cont b3 then Inr 4 else Inl 3))))"

lemma utf8_head_pos: "utf8_head bs = Inr n \<Longrightarrow> 0 < n" "utf8_head bs = Inl m \<Longrightarrow> 0 < m"
  by (auto elim!: utf8_head.elims split: list.splits if_splits simp: Let_def)

function utf8_valid :: "bytes \<Rightarrow> bool" where
  "utf8_valid bs =
     (if bs = [] then True
      else (case utf8_head bs of Inl _ \<Rightarrow> False | Inr n \<Rightarrow> utf8_valid (drop n bs)))"
  by pat_completeness auto
termination
  by (relation "measure length") (auto dest: utf8_head_pos)

text \<open>\<open>String::from_utf8_lossy\<close>: each maximal ill-formed part becomes U+FFFD.\<close>

function utf8_lossy :: "bytes \<Rightarrow> bytes" where
  "utf8_lossy bs =
     (if bs = [] then []
      else (case utf8_head bs of
          Inl n \<Rightarrow> [0xEF, 0xBF, 0xBD] @ utf8_lossy (drop n bs)
        | Inr n \<Rightarrow> take n bs @ utf8_lossy (drop n bs)))"
  by pat_completeness auto
termination
  by (relation "measure length") (auto dest: utf8_head_pos)

declare utf8_valid.simps [simp del] utf8_lossy.simps [simp del]

definition from_utf8 :: "bytes \<Rightarrow> string option" where
  "from_utf8 bs = (if utf8_valid bs then Some (map char_of_byte bs) else None)"

definition from_utf8_lossy :: "bytes \<Rightarrow> string" where
  "from_utf8_lossy bs = map char_of_byte (utf8_lossy bs)"

text \<open>The invariant of the type \<open>String\<close>.\<close>

definition valid_str :: "string \<Rightarrow> bool" where
  "valid_str s \<longleftrightarrow> utf8_valid (as_bytes s)"

definition ascii_str :: "string \<Rightarrow> bool" where
  "ascii_str s \<longleftrightarrow> list_all (\<lambda>c. byte_of_char c < 0x80) s"

text \<open>\<open>str::split\<close> at one ASCII character, and \<open>[&str]::join\<close>.\<close>

fun split_on :: "char \<Rightarrow> string \<Rightarrow> string list" where
  "split_on c [] = [[]]"
| "split_on c (x # xs) =
     (if x = c then [] # split_on c xs
      else (case split_on c xs of [] \<Rightarrow> [[x]] | y # ys \<Rightarrow> (x # y) # ys))"

fun join_with :: "string \<Rightarrow> string list \<Rightarrow> string" where
  "join_with sep [] = []"
| "join_with sep [x] = x"
| "join_with sep (x # y # ys) = x @ sep @ join_with sep (y # ys)"

text \<open>\<open>[T]::ends_with\<close>.\<close>

definition ends_with :: "'a list \<Rightarrow> 'a list \<Rightarrow> bool" where
  "ends_with xs suf \<longleftrightarrow> length suf \<le> length xs \<and> drop (length xs - length suf) xs = suf"

text \<open>The decimal \<open>Display\<close> of an unsigned integer.\<close>

fun show_nat :: "nat \<Rightarrow> string" where
  "show_nat n =
     (if n < 10 then [char_of (48 + n)] else show_nat (n div 10) @ [char_of (48 + n mod 10)])"

declare show_nat.simps [simp del]

section \<open>Facts on big-endian integers\<close>

lemma length_be_bytes [simp]: "length (be_bytes k v) = k"
  by (induction k v rule: be_bytes.induct) auto

lemma be_nat_snoc [simp]: "be_nat (bs @ [b]) = be_nat bs * 256 + unat b"
  by (simp add: be_nat_def)

lemma be_nat_Nil [simp]: "be_nat [] = 0"
  by (simp add: be_nat_def)

lemma unat_of_nat_u8: "unat (of_nat v :: u8) = v mod 256"
  by (simp add: unat_of_nat take_bit_eq_mod)

lemma unat_lt_256 [simp]: "unat (b :: u8) < 256"
  using unsigned_less [of b, where ?'a = nat] by simp

lemma be_nat_be_bytes: "be_nat (be_bytes k v) = v mod 256 ^ k"
proof (induction k v rule: be_bytes.induct)
  case (1 v)
  then show ?case by simp
next
  case (2 k v)
  have "v mod (256 * 256 ^ k) = 256 * (v div 256 mod 256 ^ k) + v mod 256"
    by (rule mod_mult2_eq)
  with 2 show ?case by (simp add: unat_of_nat_u8)
qed

lemma be_nat_less: "be_nat bs < 256 ^ length bs"
proof (induction bs rule: rev_induct)
  case Nil
  then show ?case by simp
next
  case (snoc b bs)
  have "be_nat bs * 256 + unat b < (be_nat bs + 1) * 256" by simp
  also have "\<dots> \<le> 256 ^ length bs * 256" using snoc by simp
  finally show ?case by (simp add: mult.commute)
qed

lemma be_bytes_be_nat: "be_bytes (length bs) (be_nat bs) = bs"
proof (induction bs rule: rev_induct)
  case Nil
  then show ?case by simp
next
  case (snoc b bs)
  have "(be_nat bs * 256 + unat b) div 256 = be_nat bs" by simp
  moreover have "(of_nat (be_nat bs * 256 + unat b) :: u8) = b"
  proof -
    have "unat (of_nat (be_nat bs * 256 + unat b) :: u8) = unat b"
      by (simp only: unat_of_nat_u8) simp
    then show ?thesis by (simp only: word_unat_eq_iff)
  qed
  ultimately show ?case using snoc by (simp only: length_append_singleton be_bytes.simps be_nat_snoc)
qed

lemma length_to_be_bytes [simp]:
  "length (to_be_bytes_u32 v) = 4" "length (to_be_bytes_u64 w) = 8"
  by (simp_all add: to_be_bytes_u32_def to_be_bytes_u64_def)

lemma from_to_be_bytes_u32 [simp]: "from_be_bytes_u32 (to_be_bytes_u32 v) = v"
proof -
  have "unat v < 256 ^ 4" using unsigned_less [of v, where ?'a = nat] by simp
  then show ?thesis by (simp add: from_be_bytes_u32_def to_be_bytes_u32_def be_nat_be_bytes)
qed

lemma from_to_be_bytes_u64 [simp]: "from_be_bytes_u64 (to_be_bytes_u64 v) = v"
proof -
  have "unat v < 256 ^ 8" using unsigned_less [of v, where ?'a = nat] by simp
  then show ?thesis by (simp add: from_be_bytes_u64_def to_be_bytes_u64_def be_nat_be_bytes)
qed

text \<open>For evaluation at concrete values.\<close>

lemma to_be_bytes_u32_eval:
  "to_be_bytes_u32 v =
     [of_nat (unat v div 16777216), of_nat (unat v div 65536), of_nat (unat v div 256), of_nat (unat v)]"
proof -
  have "(4 :: nat) = Suc (Suc (Suc (Suc 0)))" by simp
  then show ?thesis by (simp only: to_be_bytes_u32_def be_bytes.simps) (simp add: div_mult2_eq [symmetric])
qed

lemma from_be_bytes_u32_eval:
  "from_be_bytes_u32 [a, b, c, d] =
     of_nat (((unat a * 256 + unat b) * 256 + unat c) * 256 + unat d)"
  by (simp add: from_be_bytes_u32_def be_nat_def)

lemma unat_of_nat_u32: "n < 2 ^ 32 \<Longrightarrow> unat (of_nat n :: u32) = n"
  by (simp add: unat_of_nat take_bit_eq_mod)

lemma to_from_be_bytes_u32: "length bs = 4 \<Longrightarrow> to_be_bytes_u32 (from_be_bytes_u32 bs) = bs"
proof -
  assume len: "length bs = 4"
  with be_nat_less [of bs] have "be_nat bs < 2 ^ 32" by simp
  then have "unat (of_nat (be_nat bs) :: u32) = be_nat bs" by (rule unat_of_nat_u32)
  with len show ?thesis
    using be_bytes_be_nat [of bs] by (simp add: to_be_bytes_u32_def from_be_bytes_u32_def)
qed

lemma to_be_bytes_u32_inject [simp]: "to_be_bytes_u32 a = to_be_bytes_u32 b \<longleftrightarrow> a = b"
  by (metis from_to_be_bytes_u32)

lemma saturating_add_u32_unat:
  "unat (saturating_add_u32 a b) = min (unat a + unat b) (2 ^ 32 - 1)"
proof (cases "unat a + unat b < 2 ^ 32")
  case True
  then have "unat (a + b) = unat a + unat b"
    by (simp add: unat_word_ariths)
  with True show ?thesis by (simp add: saturating_add_u32_def)
next
  case False
  then show ?thesis by (simp add: saturating_add_u32_def)
qed

lemma be_nat_Cons_0 [simp]: "be_nat (0 # bs) = be_nat bs"
  by (simp add: be_nat_def)

lemma be_nat_dropWhile_0: "be_nat (dropWhile (\<lambda>b. b = 0) bs) = be_nat bs"
  by (induction bs) simp_all

lemma dropWhile_0_hd: "dropWhile (\<lambda>b. b = (0::u8)) bs = x # xs \<Longrightarrow> x \<noteq> 0"
  using hd_dropWhile [of "\<lambda>b. b = 0" bs] by auto

lemma high_bit_iff: "(b :: u8) AND 0x80 \<noteq> 0 \<longleftrightarrow> 0x80 \<le> b"
proof -
  have "b AND 0x80 = 0 \<longleftrightarrow> \<not> bit b 7"
    using and_exp_eq_0_iff_not_bit [of b 7] by simp
  also have "bit b 7 \<longleftrightarrow> bit (unat b) 7"
    by (simp add: bit_unsigned_iff)
  also have "\<dots> \<longleftrightarrow> odd (unat b div 128)"
    by (simp add: bit_iff_odd)
  also have "\<dots> \<longleftrightarrow> 128 \<le> unat b"
  proof (cases "128 \<le> unat b")
    case True
    then have "unat b div 128 = 1" using unat_lt_256 [of b] by (intro div_nat_eqI) simp_all
    with True show ?thesis by simp
  next
    case False
    then show ?thesis by simp
  qed
  also have "\<dots> \<longleftrightarrow> 0x80 \<le> b"
    by (simp add: word_le_nat_alt)
  finally show ?thesis by simp
qed

section \<open>Facts on strings\<close>

lemma char_of_byte_of_char [simp]: "char_of_byte (byte_of_char c) = c"
  by (simp add: byte_of_char_def char_of_byte_def unat_of_nat take_bit_eq_mod)

lemma byte_of_char_of_byte [simp]: "byte_of_char (char_of_byte b) = b"
  by (simp add: byte_of_char_def char_of_byte_def)

lemma length_as_bytes [simp]: "length (as_bytes s) = length s"
  by (simp add: as_bytes_def)

lemma map_char_as_bytes [simp]: "map char_of_byte (as_bytes s) = s"
  by (simp add: as_bytes_def comp_def)

lemma as_bytes_map_char [simp]: "as_bytes (map char_of_byte bs) = bs"
  by (simp add: as_bytes_def comp_def)

lemma as_bytes_inject [simp]: "as_bytes s = as_bytes t \<longleftrightarrow> s = t"
  by (metis map_char_as_bytes)

lemma from_utf8_as_bytes [simp]: "valid_str s \<Longrightarrow> from_utf8 (as_bytes s) = Some s"
  by (simp add: from_utf8_def valid_str_def)

lemma from_utf8_SomeD: "from_utf8 bs = Some s \<Longrightarrow> valid_str s \<and> as_bytes s = bs"
  by (auto simp: from_utf8_def valid_str_def split: if_splits)

lemma utf8_valid_ascii: "list_all (\<lambda>b. b < 0x80) bs \<Longrightarrow> utf8_valid bs"
proof (induction bs)
  case Nil
  then show ?case by (simp add: utf8_valid.simps)
next
  case (Cons b bs)
  then show ?case by (subst utf8_valid.simps) (simp add: utf8_width_def)
qed

lemma valid_str_ascii: "ascii_str s \<Longrightarrow> valid_str s"
  by (simp add: valid_str_def ascii_str_def as_bytes_def utf8_valid_ascii list.pred_map comp_def)

lemma valid_str_Nil [simp]: "valid_str []"
  by (simp add: valid_str_ascii ascii_str_def)

lemma utf8_lossy_valid: "utf8_valid bs \<Longrightarrow> utf8_lossy bs = bs"
proof (induction bs rule: utf8_valid.induct)
  case (1 bs)
  show ?case
  proof (cases "bs = []")
    case True
    then show ?thesis by (simp add: utf8_lossy.simps)
  next
    case False
    with "1.prems" obtain n where n: "utf8_head bs = Inr n" and v: "utf8_valid (drop n bs)"
      by (subst (asm) utf8_valid.simps) (auto split: sum.splits)
    from "1.IH" [OF False n v] False n show ?thesis by (subst utf8_lossy.simps) simp
  qed
qed

lemma utf8_head_take: "utf8_head bs = Inr n \<Longrightarrow> n \<le> length bs \<and> utf8_head (take n bs @ r) = Inr n"
  by (auto elim!: utf8_head.elims split: list.splits if_splits simp: Let_def)

lemma utf8_valid_head:
  assumes "utf8_head bs = Inr n"
  shows "utf8_valid (take n bs @ r) \<longleftrightarrow> utf8_valid r"
proof -
  have "n \<le> length bs" "utf8_head (take n bs @ r) = Inr n" "0 < n"
    using utf8_head_take [OF assms] utf8_head_pos(1) [OF assms] by blast+
  then show ?thesis by (subst utf8_valid.simps) auto
qed

lemma utf8_valid_append: "utf8_valid a \<Longrightarrow> utf8_valid b \<Longrightarrow> utf8_valid (a @ b)"
proof (induction a rule: utf8_valid.induct)
  case (1 a)
  show ?case
  proof (cases "a = []")
    case False
    with "1.prems"(1) obtain n where n: "utf8_head a = Inr n" and v: "utf8_valid (drop n a)"
      by (subst (asm) utf8_valid.simps) (auto split: sum.splits)
    from "1.IH" [OF False n v "1.prems"(2)] utf8_valid_head [OF n, of "drop n a @ b"] show ?thesis
      by (metis append.assoc append_take_drop_id)
  qed (use 1 in simp)
qed

lemma utf8_valid_lossy: "utf8_valid (utf8_lossy bs)"
proof (induction bs rule: utf8_lossy.induct)
  case (1 bs)
  show ?case
  proof (cases "bs = []")
    case True
    then show ?thesis by (simp add: utf8_lossy.simps utf8_valid.simps)
  next
    case False
    have bad: "utf8_head ([0xEF, 0xBF, 0xBD] @ r) = Inr 3" for r
      by (simp add: utf8_width_def utf8_second_def utf8_cont_def)
    show ?thesis
    proof (cases "utf8_head bs")
      case (Inl n)
      with 1 False have "utf8_valid (utf8_lossy (drop n bs))" by blast
      with False Inl utf8_valid_head [OF bad, of "[]"] show ?thesis
        by (subst utf8_lossy.simps) simp
    next
      case (Inr n)
      with 1 False have "utf8_valid (utf8_lossy (drop n bs))" by blast
      with False Inr utf8_valid_head [OF Inr] show ?thesis by (subst utf8_lossy.simps) simp
    qed
  qed
qed

lemma valid_str_lossy [simp]: "valid_str (from_utf8_lossy bs)"
  by (simp add: valid_str_def from_utf8_lossy_def utf8_valid_lossy)

lemma as_bytes_append: "as_bytes (s @ t) = as_bytes s @ as_bytes t"
  by (simp add: as_bytes_def)

lemma valid_str_append: "valid_str s \<Longrightarrow> valid_str t \<Longrightarrow> valid_str (s @ t)"
  by (simp add: valid_str_def as_bytes_append utf8_valid_append)

lemma from_utf8_lossy_valid: "valid_str s \<Longrightarrow> from_utf8_lossy (as_bytes s) = s"
  by (simp add: valid_str_def from_utf8_lossy_def utf8_lossy_valid)

lemma split_on_neq_Nil [simp]: "split_on c s \<noteq> []"
  by (cases "(c, s)" rule: split_on.cases) (auto split: list.splits)

lemma split_on_no_sep: "c \<notin> set s \<Longrightarrow> split_on c s = [s]"
  by (induction s) auto

lemma split_on_append_sep: "c \<notin> set s \<Longrightarrow> split_on c (s @ c # t) = s # split_on c t"
  by (induction s) auto

lemma split_join:
  "xs \<noteq> [] \<Longrightarrow> (\<forall>x \<in> set xs. c \<notin> set x) \<Longrightarrow> split_on c (join_with [c] xs) = xs"
  by (induction "[c]" xs rule: join_with.induct) (auto simp: split_on_no_sep split_on_append_sep)

lemma join_split: "join_with [c] (split_on c s) = s"
proof (induction s)
  case Nil
  then show ?case by simp
next
  case (Cons x s)
  obtain y ys where "split_on c s = y # ys" by (cases "split_on c s") auto
  with Cons show ?case by (cases ys) auto
qed

section \<open>Facts on lists\<close>

lemma ends_with_iff: "ends_with xs suf \<longleftrightarrow> (\<exists>p. xs = p @ suf)"
proof
  assume "ends_with xs suf"
  then have "xs = take (length xs - length suf) xs @ suf"
    unfolding ends_with_def by (metis append_take_drop_id)
  then show "\<exists>p. xs = p @ suf" by blast
next
  assume "\<exists>p. xs = p @ suf"
  then show "ends_with xs suf" by (auto simp: ends_with_def)
qed

lemma append_prefix_eqD: "length a = length c \<Longrightarrow> a @ b = c @ d \<Longrightarrow> a = c \<and> b = d"
  by simp

end
