(* ===== verification/Errors.thy ===== *)
theory Errors
  imports Prelude
begin

text \<open>
  The error type of \<open>src/error/mod.rs\<close>, the outcome of a Rust computation, and the
  combinators by which the model composes fallible code.

  An outcome is \<open>Ok\<close>, the \<open>Err\<close> of an \<open>SshResult\<close>, or a panic of the running task
  (arithmetic underflow, a failed allocation). \<open>and_then\<close> is the \<open>?\<close> operator. Code that
  also changes state is a function from the state to an outcome and the new state; there
  \<open>bind_st\<close> is the \<open>?\<close> operator, and the state reached when an error is returned is kept.
\<close>

text \<open>The kinds of \<open>std::io::Error\<close> that the code tells apart.\<close>

datatype io_error = UnexpectedEof | IoOther string

datatype SshError =
    Io io_error
  | Protocol string
  | KeyExchangeErr string
  | AuthFailed string
  | ChannelErr string
  | Sftp string
  | Encryption string
  | Decryption string
  | MacMismatch
  | InvalidPacket string
  | UnexpectedMessage u8
  | ConnectionClosed
  | Timeout
  | UnsupportedAlgorithm string

datatype 'a outcome = Ok 'a | Err SshError | Panic

fun and_then :: "'a outcome \<Rightarrow> ('a \<Rightarrow> 'b outcome) \<Rightarrow> 'b outcome" where
  "and_then (Ok x) f = f x"
| "and_then (Err e) f = Err e"
| "and_then Panic f = Panic"

type_synonym ('s, 'a) stateful = "'s \<Rightarrow> 'a outcome \<times> 's"

definition return_st :: "'a \<Rightarrow> ('s, 'a) stateful" where
  "return_st x s = (Ok x, s)"

definition fail_st :: "SshError \<Rightarrow> ('s, 'a) stateful" where
  "fail_st e s = (Err e, s)"

definition lift_st :: "'a outcome \<Rightarrow> ('s, 'a) stateful" where
  "lift_st r s = (r, s)"

definition bind_st :: "('s, 'a) stateful \<Rightarrow> ('a \<Rightarrow> ('s, 'b) stateful) \<Rightarrow> ('s, 'b) stateful" where
  "bind_st m f s =
     (case m s of
        (Ok x, s') \<Rightarrow> f x s'
      | (Err e, s') \<Rightarrow> (Err e, s')
      | (Panic, s') \<Rightarrow> (Panic, s'))"

text \<open>\<open>Result::map_err(SshError::Io)\<close> and \<open>Result::map_err(|_| e)\<close> on the result of an
  operation of the standard library.\<close>

definition io_result :: "io_error + 'a \<Rightarrow> 'a outcome" where
  "io_result r = (case r of Inl e \<Rightarrow> Err (Io e) | Inr x \<Rightarrow> Ok x)"

definition ok_or :: "'a option \<Rightarrow> SshError \<Rightarrow> 'a outcome" where
  "ok_or r e = (case r of None \<Rightarrow> Err e | Some x \<Rightarrow> Ok x)"

text \<open>\<open>a + b\<close> on \<open>u32\<close>: a panic on overflow when the build has overflow checks (the
  \<open>dev\<close> profile), a wrap-around when it has not (the \<open>release\<close> profile).\<close>

definition add_u32 :: "bool \<Rightarrow> u32 \<Rightarrow> u32 \<Rightarrow> u32 outcome" where
  "add_u32 overflow_checks a b =
     (if overflow_checks \<and> 2 ^ 32 \<le> unat a + unat b then Panic else Ok (a + b))"

section \<open>Laws of the combinators\<close>

lemma and_then_eq_Ok_iff [simp]:
  "and_then m f = Ok y \<longleftrightarrow> (\<exists>x. m = Ok x \<and> f x = Ok y)"
  by (cases m) auto

lemma Ok_eq_and_then_iff [simp]:
  "Ok y = and_then m f \<longleftrightarrow> (\<exists>x. m = Ok x \<and> f x = Ok y)"
  by (cases m) auto

lemma and_then_Ok_right [simp]: "and_then m Ok = m"
  by (cases m) auto

lemma and_then_assoc: "and_then (and_then m f) g = and_then m (\<lambda>x. and_then (f x) g)"
  by (cases m) auto

lemma bind_st_return [simp]: "bind_st (return_st x) f = f x"
  by (rule ext) (simp add: bind_st_def return_st_def)

lemma bind_st_fail [simp]: "bind_st (fail_st e) f = fail_st e"
  by (rule ext) (simp add: bind_st_def fail_st_def)

lemma bind_st_assoc: "bind_st (bind_st m f) g = bind_st m (\<lambda>x. bind_st (f x) g)"
  by (rule ext) (simp add: bind_st_def split: prod.splits outcome.splits)

lemma bind_st_Ok: "m s = (Ok x, s') \<Longrightarrow> bind_st m f s = f x s'"
  by (simp add: bind_st_def)

lemma bind_st_Err: "m s = (Err e, s') \<Longrightarrow> bind_st m f s = (Err e, s')"
  by (simp add: bind_st_def)

lemma bind_st_OkE:
  assumes "bind_st m f s = (Ok y, t)"
  obtains x s' where "m s = (Ok x, s')" and "f x s' = (Ok y, t)"
  using assms by (auto simp: bind_st_def split: prod.splits outcome.splits)

lemma lift_st_Ok [simp]: "lift_st (Ok x) = return_st x"
  by (rule ext) (simp add: lift_st_def return_st_def)

lemma lift_st_Err [simp]: "lift_st (Err e) = fail_st e"
  by (rule ext) (simp add: lift_st_def fail_st_def)

lemma io_result_simps [simp]:
  "io_result (Inr x) = Ok x" "io_result (Inl e) = Err (Io e)"
  by (simp_all add: io_result_def)

lemma ok_or_simps [simp]: "ok_or (Some x) e = Ok x" "ok_or None e = Err e"
  by (simp_all add: ok_or_def)

lemma ok_or_Ok_iff [simp]: "ok_or r e = Ok x \<longleftrightarrow> r = Some x"
  by (cases r) auto

lemma add_u32_Ok:
  "unat a + unat b < 2 ^ 32 \<Longrightarrow> add_u32 chk a b = Ok (a + b) \<and> unat (a + b) = unat a + unat b"
  by (simp add: add_u32_def unat_word_ariths)

section \<open>Code that leaves a part of its state alone\<close>

definition keeps :: "('s \<Rightarrow> 'b) \<Rightarrow> ('s, 'a) stateful \<Rightarrow> bool" where
  "keeps part m \<longleftrightarrow> (\<forall>s. part (snd (m s)) = part s)"

lemma keeps_bind [keeps_rules]:
  assumes "keeps part m" and "\<And>x. keeps part (f x)"
  shows "keeps part (bind_st m f)"
  unfolding keeps_def
proof
  fix s
  obtain r s' where m: "m s = (r, s')" by (cases "m s")
  have "part s' = part s" using assms(1) m by (metis keeps_def snd_conv)
  moreover have "part (snd (f x t)) = part t" for x t using assms(2) by (simp add: keeps_def)
  ultimately show "part (snd (bind_st m f s)) = part s" using m by (cases r) (simp_all add: bind_st_def)
qed

lemma keeps_simple [keeps_rules]:
  "keeps part (return_st x)" "keeps part (fail_st e)" "keeps part (lift_st r)"
  by (simp_all add: keeps_def return_st_def fail_st_def lift_st_def)

lemma keeps_if [keeps_rules]: "keeps part m \<Longrightarrow> keeps part n \<Longrightarrow> keeps part (if b then m else n)"
  by simp

lemma keeps_option [keeps_rules]:
  "keeps part m \<Longrightarrow> (\<And>x. keeps part (f x)) \<Longrightarrow> keeps part (case y of None \<Rightarrow> m | Some x \<Rightarrow> f x)"
  by (cases y) simp_all

lemma keeps_prod [keeps_rules]: "(\<And>x y. keeps part (f x y)) \<Longrightarrow> keeps part (case p of (x, y) \<Rightarrow> f x y)"
  by (cases p) simp

lemma keeps_outcome [keeps_rules]:
  "(\<And>x. keeps part (f x)) \<Longrightarrow> (\<And>e. keeps part (g e)) \<Longrightarrow> keeps part n \<Longrightarrow>
   keeps part (case r of Ok x \<Rightarrow> f x | Err e \<Rightarrow> g e | Panic \<Rightarrow> n)"
  by (cases r) simp_all

lemma keepsD: "keeps part m \<Longrightarrow> m s = (r, s') \<Longrightarrow> part s' = part s"
  by (metis keeps_def snd_conv)

section \<open>Code that changes a part of its state by given steps only\<close>

definition evolves :: "('b \<Rightarrow> 'b \<Rightarrow> bool) \<Rightarrow> ('s \<Rightarrow> 'b) \<Rightarrow> ('s, 'a) stateful \<Rightarrow> bool" where
  "evolves R part m \<longleftrightarrow> (\<forall>s. R\<^sup>*\<^sup>* (part s) (part (snd (m s))))"

lemma evolvesD: "evolves R part m \<Longrightarrow> m s = (r, s') \<Longrightarrow> R\<^sup>*\<^sup>* (part s) (part s')"
  by (metis evolves_def snd_conv)

lemma evolves_keeps: "keeps part m \<Longrightarrow> evolves R part m"
  by (simp add: keeps_def evolves_def)

lemma evolves_bind [evolve_rules]:
  assumes "evolves R part m" and "\<And>x. evolves R part (f x)"
  shows "evolves R part (bind_st m f)"
  unfolding evolves_def
proof
  fix s
  obtain r s' where m: "m s = (r, s')" by (cases "m s")
  have "R\<^sup>*\<^sup>* (part s) (part s')" using assms(1) m by (rule evolvesD)
  moreover have "R\<^sup>*\<^sup>* (part t) (part (snd (f x t)))" for x t using assms(2) by (simp add: evolves_def)
  ultimately show "R\<^sup>*\<^sup>* (part s) (part (snd (bind_st m f s)))"
    using m by (cases r) (auto simp: bind_st_def intro: rtranclp_trans)
qed

lemma evolves_simple [evolve_rules]:
  "evolves R part (return_st x)" "evolves R part (fail_st e)" "evolves R part (lift_st r)"
  by (simp_all add: evolves_keeps keeps_simple)

lemma evolves_then_return: "evolves R part m \<Longrightarrow> evolves R part (bind_st m (\<lambda>_. return_st x))"
  by (intro evolve_rules)

lemma evolves_cases [evolve_rules]:
  "evolves R part m \<Longrightarrow> evolves R part n \<Longrightarrow> evolves R part (if b then m else n)"
  "(\<And>x y. evolves R part (h x y)) \<Longrightarrow> evolves R part (case p of (x, y) \<Rightarrow> h x y)"
  "(\<And>x. evolves R part (f x)) \<Longrightarrow> (\<And>e. evolves R part (g e)) \<Longrightarrow> evolves R part n \<Longrightarrow>
   evolves R part (case r of Ok x \<Rightarrow> f x | Err e \<Rightarrow> g e | Panic \<Rightarrow> n)"
  by (simp, cases p, simp, cases r, simp_all)

end
