(* ===== verification/Packet_Types.thy ===== *)
theory Packet_Types
  imports Errors
begin

text \<open>
  The message numbers, the disconnect reasons and the protocol constants of
  \<open>src/packet/types.rs\<close>.
\<close>

datatype MessageType =
    Disconnect | Ignore | Unimplemented | Debug | ServiceRequest | ServiceAccept
  | KexInit | NewKeys | KexEcdhInit | KexEcdhReply
  | UserAuthRequest | UserAuthFailure | UserAuthSuccess | UserAuthBanner
  | GlobalRequest | RequestSuccess | RequestFailure
  | ChannelOpen | ChannelOpenConfirmation | ChannelOpenFailure | ChannelWindowAdjust
  | ChannelData | ChannelExtendedData | ChannelEof | ChannelClose | ChannelRequest
  | ChannelSuccess | ChannelFailure

text \<open>\<open>msg_type as u8\<close>: the discriminants of the enum.\<close>

fun msg_u8 :: "MessageType \<Rightarrow> u8" where
  "msg_u8 Disconnect = 1"
| "msg_u8 Ignore = 2"
| "msg_u8 Unimplemented = 3"
| "msg_u8 Debug = 4"
| "msg_u8 ServiceRequest = 5"
| "msg_u8 ServiceAccept = 6"
| "msg_u8 KexInit = 20"
| "msg_u8 NewKeys = 21"
| "msg_u8 KexEcdhInit = 30"
| "msg_u8 KexEcdhReply = 31"
| "msg_u8 UserAuthRequest = 50"
| "msg_u8 UserAuthFailure = 51"
| "msg_u8 UserAuthSuccess = 52"
| "msg_u8 UserAuthBanner = 53"
| "msg_u8 GlobalRequest = 80"
| "msg_u8 RequestSuccess = 81"
| "msg_u8 RequestFailure = 82"
| "msg_u8 ChannelOpen = 90"
| "msg_u8 ChannelOpenConfirmation = 91"
| "msg_u8 ChannelOpenFailure = 92"
| "msg_u8 ChannelWindowAdjust = 93"
| "msg_u8 ChannelData = 94"
| "msg_u8 ChannelExtendedData = 95"
| "msg_u8 ChannelEof = 96"
| "msg_u8 ChannelClose = 97"
| "msg_u8 ChannelRequest = 98"
| "msg_u8 ChannelSuccess = 99"
| "msg_u8 ChannelFailure = 100"

definition from_u8 :: "u8 \<Rightarrow> MessageType option" where
  "from_u8 val =
     (if val = 1 then Some Disconnect
      else if val = 2 then Some Ignore
      else if val = 3 then Some Unimplemented
      else if val = 4 then Some Debug
      else if val = 5 then Some ServiceRequest
      else if val = 6 then Some ServiceAccept
      else if val = 20 then Some KexInit
      else if val = 21 then Some NewKeys
      else if val = 30 then Some KexEcdhInit
      else if val = 31 then Some KexEcdhReply
      else if val = 50 then Some UserAuthRequest
      else if val = 51 then Some UserAuthFailure
      else if val = 52 then Some UserAuthSuccess
      else if val = 53 then Some UserAuthBanner
      else if val = 80 then Some GlobalRequest
      else if val = 81 then Some RequestSuccess
      else if val = 82 then Some RequestFailure
      else if val = 90 then Some ChannelOpen
      else if val = 91 then Some ChannelOpenConfirmation
      else if val = 92 then Some ChannelOpenFailure
      else if val = 93 then Some ChannelWindowAdjust
      else if val = 94 then Some ChannelData
      else if val = 95 then Some ChannelExtendedData
      else if val = 96 then Some ChannelEof
      else if val = 97 then Some ChannelClose
      else if val = 98 then Some ChannelRequest
      else if val = 99 then Some ChannelSuccess
      else if val = 100 then Some ChannelFailure
      else None)"

datatype DisconnectReason =
    HostNotAllowed | ProtocolError | KeyExchangeFailed | Reserved | MacError
  | CompressionError | ServiceNotAvailable | ProtocolVersionNotSupported
  | HostKeyNotVerifiable | ConnectionLost | ByApplication | TooManyConnections
  | AuthCancelledByUser | NoMoreAuthMethodsAvailable | IllegalUserName

fun disconnect_reason_u32 :: "DisconnectReason \<Rightarrow> u32" where
  "disconnect_reason_u32 HostNotAllowed = 1"
| "disconnect_reason_u32 ProtocolError = 2"
| "disconnect_reason_u32 KeyExchangeFailed = 3"
| "disconnect_reason_u32 Reserved = 4"
| "disconnect_reason_u32 MacError = 5"
| "disconnect_reason_u32 CompressionError = 6"
| "disconnect_reason_u32 ServiceNotAvailable = 7"
| "disconnect_reason_u32 ProtocolVersionNotSupported = 8"
| "disconnect_reason_u32 HostKeyNotVerifiable = 9"
| "disconnect_reason_u32 ConnectionLost = 10"
| "disconnect_reason_u32 ByApplication = 11"
| "disconnect_reason_u32 TooManyConnections = 12"
| "disconnect_reason_u32 AuthCancelledByUser = 13"
| "disconnect_reason_u32 NoMoreAuthMethodsAvailable = 14"
| "disconnect_reason_u32 IllegalUserName = 15"

definition SSH_VERSION_STRING :: string where
  "SSH_VERSION_STRING = ''SSH-2.0-SwiftSSH_0.1''"

definition MAX_PACKET_SIZE :: nat where "MAX_PACKET_SIZE = 35000"
definition MIN_PADDING :: nat where "MIN_PADDING = 4"
definition MAX_PADDING :: nat where "MAX_PADDING = 255"
definition AES_BLOCK_SIZE :: nat where "AES_BLOCK_SIZE = 16"
definition HMAC_SHA256_SIZE :: nat where "HMAC_SHA256_SIZE = 32"
definition DEFAULT_WINDOW_SIZE :: u32 where "DEFAULT_WINDOW_SIZE = 2097152"
definition DEFAULT_MAX_PACKET_SIZE :: u32 where "DEFAULT_MAX_PACKET_SIZE = 32768"

lemmas size_consts =
  MAX_PACKET_SIZE_def MIN_PADDING_def AES_BLOCK_SIZE_def HMAC_SHA256_SIZE_def

section \<open>The number of a message determines it\<close>

lemma from_u8_msg_u8 [simp]: "from_u8 (msg_u8 t) = Some t"
  by (cases t) (simp_all add: from_u8_def)

lemma msg_u8_from_u8: "from_u8 v = Some t \<Longrightarrow> msg_u8 t = v"
  by (auto simp: from_u8_def split: if_splits)

lemma msg_u8_inject [simp]: "msg_u8 a = msg_u8 b \<longleftrightarrow> a = b"
  by (metis from_u8_msg_u8 option.inject)

text \<open>Messages are ordered by their numbers, which group them by protocol layer.\<close>

instantiation MessageType :: linorder
begin
definition less_eq_MessageType :: "MessageType \<Rightarrow> MessageType \<Rightarrow> bool" where
  "less_eq_MessageType a b \<longleftrightarrow> msg_u8 a \<le> msg_u8 b"
definition less_MessageType :: "MessageType \<Rightarrow> MessageType \<Rightarrow> bool" where
  "less_MessageType a b \<longleftrightarrow> msg_u8 a < msg_u8 b"
instance
proof
  fix x y z :: MessageType
  show "(x < y) = (x \<le> y \<and> \<not> y \<le> x)"
    by (simp add: less_eq_MessageType_def less_MessageType_def less_le_not_le)
  show "x \<le> x" by (simp add: less_eq_MessageType_def)
  show "x \<le> y \<Longrightarrow> y \<le> z \<Longrightarrow> x \<le> z" by (simp add: less_eq_MessageType_def)
  show "x \<le> y \<Longrightarrow> y \<le> x \<Longrightarrow> x = y" by (simp add: less_eq_MessageType_def)
  show "x \<le> y \<or> y \<le> x" by (auto simp: less_eq_MessageType_def)
qed
end

end
