(* ===== verification/Packet_Codec.thy ===== *)
theory Packet_Codec
  imports Packet_Types
begin

unbundle bit_operations_syntax

text \<open>
  The binary packet format and the wire types of \<open>src/packet/codec.rs\<close>.

  \<open>Cursor<&[u8]>\<close> is the record \<open>cursor\<close>: the data and a position. A reader returns the
  value and the advanced cursor; after an error no code of the program looks at the cursor
  again, so the outcome carries none. A writer appends to a buffer.

  The locale \<open>wire_item\<close> is the contract between a writer and its reader: the writer only
  appends, and the reader at the start of a written item returns the item and stops right
  behind it. Clients of the codec rely on that contract; it is established here for every
  wire type the program reads and writes, and \<open>wire_pair\<close> extends it to two fields in a
  row. Random bytes come from \<open>rand\<close>, a parameter \<open>fill\<close> of \<open>serialize\<close>.
\<close>

section \<open>The cursor\<close>

record cursor =
  cdata :: bytes
  cpos :: nat

definition cursor_new :: "bytes \<Rightarrow> cursor" where
  "cursor_new data = \<lparr>cdata = data, cpos = 0\<rparr>"

definition cur_rest :: "cursor \<Rightarrow> bytes" where
  "cur_rest c = drop (cpos c) (cdata c)"

definition cur_adv :: "nat \<Rightarrow> cursor \<Rightarrow> cursor" where
  "cur_adv n c = c\<lparr>cpos := cpos c + n\<rparr>"

text \<open>\<open>Read::read_exact\<close> on a cursor: all \<open>n\<close> bytes or the error \<open>UnexpectedEof\<close>.\<close>

definition cur_read_exact :: "nat \<Rightarrow> cursor \<Rightarrow> (bytes \<times> cursor) option" where
  "cur_read_exact n c =
     (if n \<le> length (cur_rest c) then Some (take n (cur_rest c), cur_adv n c) else None)"

text \<open>\<open>ReadBytesExt\<close> on a cursor.\<close>

definition cur_read_u8 :: "cursor \<Rightarrow> (u8 \<times> cursor) option" where
  "cur_read_u8 c = map_option (\<lambda>(bs, c'). (hd bs, c')) (cur_read_exact 1 c)"

definition cur_read_u32 :: "cursor \<Rightarrow> (u32 \<times> cursor) option" where
  "cur_read_u32 c = map_option (\<lambda>(bs, c'). (from_be_bytes_u32 bs, c')) (cur_read_exact 4 c)"

definition cur_read_u64 :: "cursor \<Rightarrow> (u64 \<times> cursor) option" where
  "cur_read_u64 c = map_option (\<lambda>(bs, c'). (from_be_bytes_u64 bs, c')) (cur_read_exact 8 c)"

section \<open>Packets\<close>

record SshPacket =
  msg_type :: u8
  payload :: bytes

definition SshPacket_new :: "MessageType \<Rightarrow> bytes \<Rightarrow> SshPacket" where
  "SshPacket_new t p = \<lparr>msg_type = msg_u8 t, payload = p\<rparr>"

definition padding_len :: "nat \<Rightarrow> nat \<Rightarrow> nat" where
  "padding_len block_size payload_len =
     (let min_packet_len = 1 + payload_len + MIN_PADDING;
          remainder = min_packet_len mod block_size
      in if remainder = 0 then MIN_PADDING else MIN_PADDING + (block_size - remainder))"

definition serialize ::
  "('g \<Rightarrow> nat \<Rightarrow> bytes \<times> 'g) \<Rightarrow> SshPacket \<Rightarrow> nat \<Rightarrow> ('g, bytes) stateful" where
  "serialize fill pkt block_size0 rng =
     (let block_size = max block_size0 8;
          payload_len = 1 + length (payload pkt);
          padding = padding_len block_size payload_len;
          packet_length = 1 + payload_len + padding
      in if packet_length > MAX_PACKET_SIZE
         then (Err (InvalidPacket (''Packet too large: '' @ show_nat packet_length @ '' bytes'')), rng)
         else (let buf = to_be_bytes_u32 (of_nat packet_length);
                   buf = buf @ [of_nat padding];
                   buf = buf @ [msg_type pkt];
                   buf = buf @ payload pkt;
                   (random, rng') = fill rng padding
               in (Ok (buf @ random), rng')))"

definition deserialize :: "bytes \<Rightarrow> SshPacket outcome" where
  "deserialize data =
     (if length data < 6 then Err (InvalidPacket ''Packet too short'')
      else and_then (ok_or (cur_read_u32 (cursor_new data)) (Io UnexpectedEof)) (\<lambda>(len, c).
        let packet_length = unat len in
        if packet_length > MAX_PACKET_SIZE
        then Err (InvalidPacket (''Packet length too large: '' @ show_nat packet_length))
        else if length data < 4 + packet_length
        then Err (InvalidPacket ''Incomplete packet data'')
        else and_then (ok_or (cur_read_u8 c) (Io UnexpectedEof)) (\<lambda>(pad, c).
          let padding_length = unat pad in
          if padding_length \<ge> packet_length then Err (InvalidPacket ''Invalid padding length'')
          else let payload_length = packet_length - 1 - padding_length in
          if payload_length = 0 then Err (InvalidPacket ''Empty payload'')
          else and_then (ok_or (cur_read_u8 c) (Io UnexpectedEof)) (\<lambda>(mt, c).
            and_then (ok_or (cur_read_exact (payload_length - 1) c) (Io UnexpectedEof)) (\<lambda>(pl, c).
              Ok \<lparr>msg_type = mt, payload = pl\<rparr>)))))"

section \<open>SshBuf: wire types\<close>

definition write_u32 :: "bytes \<Rightarrow> u32 \<Rightarrow> bytes" where
  "write_u32 buf val = buf @ to_be_bytes_u32 val"

definition write_u8 :: "bytes \<Rightarrow> u8 \<Rightarrow> bytes" where
  "write_u8 buf val = buf @ [val]"

definition write_bool :: "bytes \<Rightarrow> bool \<Rightarrow> bytes" where
  "write_bool buf val = buf @ [if val then 1 else 0]"

definition write_string :: "bytes \<Rightarrow> bytes \<Rightarrow> bytes" where
  "write_string buf data =
     (let buf = buf @ to_be_bytes_u32 (of_nat (length data)) in buf @ data)"

definition write_utf8 :: "bytes \<Rightarrow> string \<Rightarrow> bytes" where
  "write_utf8 buf s = write_string buf (as_bytes s)"

definition write_name_list :: "bytes \<Rightarrow> string list \<Rightarrow> bytes" where
  "write_name_list buf names = (let joined = join_with '','' names in write_utf8 buf joined)"

definition write_mpint :: "bytes \<Rightarrow> bytes \<Rightarrow> bytes" where
  "write_mpint buf val =
     (let stripped = (case dropWhile (\<lambda>b. b = 0) val of [] \<Rightarrow> [0] | s \<Rightarrow> s);
          buf = (if hd stripped AND 0x80 \<noteq> 0
                 then (buf @ to_be_bytes_u32 (of_nat (length stripped + 1))) @ [0]
                 else buf @ to_be_bytes_u32 (of_nat (length stripped)))
      in buf @ stripped)"

definition read_string :: "cursor \<Rightarrow> (bytes \<times> cursor) outcome" where
  "read_string c =
     and_then (ok_or (cur_read_u32 c) (InvalidPacket ''Failed to read string length'')) (\<lambda>(n, c).
       let len = unat n in
       if len > MAX_PACKET_SIZE then Err (InvalidPacket ''String too long'')
       else ok_or (cur_read_exact len c) (InvalidPacket ''Truncated string''))"

definition read_utf8 :: "cursor \<Rightarrow> (string \<times> cursor) outcome" where
  "read_utf8 c =
     and_then (read_string c) (\<lambda>(data, c).
       and_then (ok_or (from_utf8 data) (InvalidPacket ''Invalid UTF-8 string'')) (\<lambda>s. Ok (s, c)))"

definition read_name_list :: "cursor \<Rightarrow> (string list \<times> cursor) outcome" where
  "read_name_list c =
     and_then (read_utf8 c) (\<lambda>(s, c).
       if s = [] then Ok ([], c) else Ok (split_on CHR '','' s, c))"

definition read_bool :: "cursor \<Rightarrow> (bool \<times> cursor) outcome" where
  "read_bool c =
     and_then (ok_or (cur_read_u8 c) (InvalidPacket ''Failed to read bool'')) (\<lambda>(b, c). Ok (b \<noteq> 0, c))"

definition read_u32 :: "cursor \<Rightarrow> (u32 \<times> cursor) outcome" where
  "read_u32 c = ok_or (cur_read_u32 c) (InvalidPacket ''Failed to read u32'')"

definition read_mpint :: "cursor \<Rightarrow> (bytes \<times> cursor) outcome" where
  "read_mpint c = read_string c"

section \<open>Facts on cursors\<close>

lemma cur_rest_adv [simp]: "cur_rest (cur_adv n c) = drop n (cur_rest c)"
  by (simp add: cur_rest_def cur_adv_def add.commute)

lemma cur_rest_new [simp]: "cur_rest (cursor_new data) = data"
  by (simp add: cur_rest_def cursor_new_def)

lemma cur_adv_adv [simp]: "cur_adv m (cur_adv n c) = cur_adv (n + m) c"
  by (simp add: cur_adv_def add.assoc)

lemma cpos_adv [simp]: "cpos (cur_adv n c) = cpos c + n"
  by (simp add: cur_adv_def)

lemma cursor_new_sel [simp]: "cpos (cursor_new data) = 0" "cdata (cursor_new data) = data"
  by (simp_all add: cursor_new_def)

lemma cdata_adv [simp]: "cdata (cur_adv n c) = cdata c"
  by (simp add: cur_adv_def)

section \<open>The contract of a wire type\<close>

locale wire_item =
  fixes wr :: "bytes \<Rightarrow> 'a \<Rightarrow> bytes"
    and rd :: "cursor \<Rightarrow> ('a \<times> cursor) outcome"
    and ok :: "'a \<Rightarrow> bool"
  assumes wr_append: "wr buf v = buf @ wr [] v"
    and rd_wr: "ok v \<Longrightarrow> cur_rest c = wr [] v @ rest \<Longrightarrow> rd c = Ok (v, cur_adv (length (wr [] v)) c)"
begin

lemma rd_behind:
  assumes "ok v"
  shows "rd (cur_adv (length buf) (cursor_new (wr buf v @ rest))) =
           Ok (v, cur_adv (length (wr buf v)) (cursor_new (wr buf v @ rest)))"
proof -
  let ?c = "cur_adv (length buf) (cursor_new (wr buf v @ rest))"
  have "cur_rest ?c = wr [] v @ rest"
    by (simp add: wr_append [of buf])
  from rd_wr [OF assms this] show ?thesis
    by (simp add: wr_append [of buf])
qed

text \<open>The encoding is prefix free: what was written first is determined by the bytes.\<close>

lemma wr_unique:
  assumes "ok v" and "ok w" and eq: "wr [] v @ x = wr [] w @ y"
  shows "v = w \<and> x = y"
proof -
  let ?c = "cursor_new (wr [] v @ x)"
  have "cur_rest ?c = wr [] v @ x" by simp
  from rd_wr [OF assms(1) this] rd_wr [OF assms(2) this [unfolded eq]] eq have "v = w" by simp
  with eq show ?thesis by simp
qed

lemma wr_unique_iff: "ok v \<Longrightarrow> ok w \<Longrightarrow> wr [] v @ x = wr [] w @ y \<longleftrightarrow> v = w \<and> x = y"
  using wr_unique by blast

end

definition wr_pair ::
  "(bytes \<Rightarrow> 'a \<Rightarrow> bytes) \<Rightarrow> (bytes \<Rightarrow> 'b \<Rightarrow> bytes) \<Rightarrow> bytes \<Rightarrow> 'a \<times> 'b \<Rightarrow> bytes" where
  "wr_pair w1 w2 buf v = w2 (w1 buf (fst v)) (snd v)"

definition rd_pair ::
  "(cursor \<Rightarrow> ('a \<times> cursor) outcome) \<Rightarrow> (cursor \<Rightarrow> ('b \<times> cursor) outcome) \<Rightarrow>
   cursor \<Rightarrow> (('a \<times> 'b) \<times> cursor) outcome" where
  "rd_pair r1 r2 c =
     and_then (r1 c) (\<lambda>(a, c). and_then (r2 c) (\<lambda>(b, c). Ok ((a, b), c)))"

locale wire_pair = w1: wire_item wr1 rd1 ok1 + w2: wire_item wr2 rd2 ok2
  for wr1 :: "bytes \<Rightarrow> 'a \<Rightarrow> bytes" and rd1 ok1
    and wr2 :: "bytes \<Rightarrow> 'b \<Rightarrow> bytes" and rd2 ok2
begin

lemma pair_append: "wr_pair wr1 wr2 buf v = buf @ wr_pair wr1 wr2 [] v"
  unfolding wr_pair_def
  by (metis append.assoc w1.wr_append w2.wr_append)

lemma pair_read:
  assumes "ok1 (fst v)" and "ok2 (snd v)" and c: "cur_rest c = wr_pair wr1 wr2 [] v @ rest"
  shows "rd_pair rd1 rd2 c = Ok (v, cur_adv (length (wr_pair wr1 wr2 [] v)) c)"
proof -
  have split: "wr_pair wr1 wr2 [] v = wr1 [] (fst v) @ wr2 [] (snd v)"
    unfolding wr_pair_def by (metis w2.wr_append)
  then have "cur_rest c = wr1 [] (fst v) @ (wr2 [] (snd v) @ rest)" using c by simp
  note r1 = w1.rd_wr [OF assms(1) this]
  have "cur_rest (cur_adv (length (wr1 [] (fst v))) c) = wr2 [] (snd v) @ rest"
    using c split by simp
  note r2 = w2.rd_wr [OF assms(2) this]
  show ?thesis using r1 r2 by (simp add: rd_pair_def split)
qed

end

sublocale wire_pair \<subseteq> pair: wire_item "wr_pair wr1 wr2" "rd_pair rd1 rd2" "\<lambda>v. ok1 (fst v) \<and> ok2 (snd v)"
  by unfold_locales (auto intro: pair_append pair_read)


section \<open>Every wire type keeps the contract\<close>

definition str_ok :: "string \<Rightarrow> bool" where
  "str_ok s \<longleftrightarrow> valid_str s \<and> length s \<le> MAX_PACKET_SIZE"

definition blob_ok :: "bytes \<Rightarrow> bool" where
  "blob_ok d \<longleftrightarrow> length d \<le> MAX_PACKET_SIZE"

text \<open>A list of names can be read back when no name holds a comma and the list is not the
  one empty name, whose encoding is that of the empty list.\<close>

definition names_ok :: "string list \<Rightarrow> bool" where
  "names_ok names \<longleftrightarrow>
     (\<forall>n \<in> set names. CHR '','' \<notin> set n) \<and> names \<noteq> [[]] \<and> str_ok (join_with '','' names)"

lemma of_nat_len_u32: "n \<le> MAX_PACKET_SIZE \<Longrightarrow> unat (of_nat n :: u32) = n"
  by (rule unat_of_nat_u32) (simp add: MAX_PACKET_SIZE_def)

lemma cur_read_u32_at:
  "cur_rest c = to_be_bytes_u32 v @ rest \<Longrightarrow> cur_read_u32 c = Some (v, cur_adv 4 c)"
  by (simp add: cur_read_u32_def cur_read_exact_def)

lemma cur_read_u64_at:
  "cur_rest c = to_be_bytes_u64 v @ rest \<Longrightarrow> cur_read_u64 c = Some (v, cur_adv 8 c)"
  by (simp add: cur_read_u64_def cur_read_exact_def)

lemma cur_read_u8_at: "cur_rest c = b # rest \<Longrightarrow> cur_read_u8 c = Some (b, cur_adv 1 c)"
  by (simp add: cur_read_u8_def cur_read_exact_def)

lemma cur_read_exact_at:
  "cur_rest c = d @ rest \<Longrightarrow> cur_read_exact (length d) c = Some (d, cur_adv (length d) c)"
  by (simp add: cur_read_exact_def)

lemma write_append:
  "write_u32 buf v = buf @ to_be_bytes_u32 v"
  "write_u8 buf b = buf @ [b]"
  "write_bool buf t = buf @ [if t then 1 else 0]"
  "write_string buf d = buf @ to_be_bytes_u32 (of_nat (length d)) @ d"
  by (simp_all add: write_u32_def write_u8_def write_bool_def write_string_def Let_def)

lemma length_write [simp]:
  "length (write_u32 buf v) = length buf + 4"
  "length (write_u8 buf b) = length buf + 1"
  "length (write_bool buf t) = length buf + 1"
  "length (write_string buf d) = length buf + 4 + length d"
  "length (write_utf8 buf s) = length buf + 4 + length s"
  by (simp_all add: write_append write_utf8_def)

interpretation u32_item: wire_item write_u32 read_u32 "\<lambda>_. True"
  by unfold_locales (auto simp: write_append read_u32_def cur_read_u32_at)

interpretation bool_item: wire_item write_bool read_bool "\<lambda>_. True"
  by unfold_locales (auto simp: write_append read_bool_def cur_read_u8_at split: if_splits)

lemma read_string_at:
  assumes "blob_ok d" and "cur_rest c = write_string [] d @ rest"
  shows "read_string c = Ok (d, cur_adv (length (write_string [] d)) c)"
proof -
  have "cur_rest c = to_be_bytes_u32 (of_nat (length d)) @ (d @ rest)"
    using assms(2) by (simp add: write_append)
  note n = cur_read_u32_at [OF this]
  have "cur_rest (cur_adv 4 c) = d @ rest" using assms(2) by (simp add: write_append)
  from cur_read_exact_at [OF this] n assms(1) show ?thesis
    by (simp add: read_string_def of_nat_len_u32 blob_ok_def)
qed

interpretation blob_item: wire_item write_string read_string blob_ok
proof
  show "write_string buf d = buf @ write_string [] d" for buf d
    by (simp add: write_append)
qed (rule read_string_at)

lemma read_utf8_at:
  assumes "str_ok s" and "cur_rest c = write_utf8 [] s @ rest"
  shows "read_utf8 c = Ok (s, cur_adv (length (write_utf8 [] s)) c)"
proof -
  have "blob_ok (as_bytes s)" using assms(1) by (simp add: str_ok_def blob_ok_def)
  from blob_item.rd_wr [OF this, of c rest] assms show ?thesis
    by (simp add: read_utf8_def write_utf8_def str_ok_def)
qed

interpretation utf8_item: wire_item write_utf8 read_utf8 str_ok
proof
  show "write_utf8 buf s = buf @ write_utf8 [] s" for buf s
    by (simp add: write_utf8_def write_append)
qed (rule read_utf8_at)

lemma join_with_Nil_iff: "join_with '','' names = [] \<longleftrightarrow> names = [] \<or> names = [[]]"
  by (cases "('','', names)" rule: join_with.cases) auto

interpretation names_item: wire_item write_name_list read_name_list names_ok
proof
  show "write_name_list buf names = buf @ write_name_list [] names" for buf names
    unfolding write_name_list_def Let_def by (rule utf8_item.wr_append)
next
  fix names c rest
  assume ok: "names_ok names" and c: "cur_rest c = write_name_list [] names @ rest"
  have r: "read_utf8 c = Ok (join_with '','' names, cur_adv (length (write_name_list [] names)) c)"
    unfolding write_name_list_def Let_def
    by (rule read_utf8_at) (use ok c in \<open>simp_all add: names_ok_def write_name_list_def\<close>)
  show "read_name_list c = Ok (names, cur_adv (length (write_name_list [] names)) c)"
  proof (cases "names = []")
    case True
    with r show ?thesis by (simp add: read_name_list_def)
  next
    case False
    with ok have "join_with '','' names \<noteq> []" and "split_on CHR '','' (join_with '','' names) = names"
      by (auto simp: names_ok_def join_with_Nil_iff split_join)
    with r show ?thesis by (simp add: read_name_list_def)
  qed
qed

interpretation u32_u32: wire_pair write_u32 read_u32 "\<lambda>_. True" write_u32 read_u32 "\<lambda>_. True" ..

interpretation u32_blob: wire_pair write_u32 read_u32 "\<lambda>_. True" write_string read_string blob_ok ..

text \<open>The same in the form the simplifier uses: \<open>enc_\<dots>\<close> is what a writer appends.\<close>

definition enc_bool :: "bool \<Rightarrow> bytes" where
  "enc_bool = write_bool []"

definition enc_blob :: "bytes \<Rightarrow> bytes" where
  "enc_blob = write_string []"

definition enc_utf8 :: "string \<Rightarrow> bytes" where
  "enc_utf8 = write_utf8 []"

definition enc_names :: "string list \<Rightarrow> bytes" where
  "enc_names = write_name_list []"

lemma write_enc [wire_simps]:
  "write_u32 buf v = buf @ to_be_bytes_u32 v"
  "write_u8 buf b = buf @ [b]"
  "write_bool buf t = buf @ enc_bool t"
  "write_string buf d = buf @ enc_blob d"
  "write_utf8 buf s = buf @ enc_utf8 s"
  "write_name_list buf ns = buf @ enc_names ns"
  unfolding enc_bool_def enc_blob_def enc_utf8_def enc_names_def
  by (fact write_append bool_item.wr_append blob_item.wr_append utf8_item.wr_append
        names_item.wr_append)+

lemma length_enc [simp]:
  "length (enc_bool t) = 1" "length (enc_blob d) = 4 + length d" "length (enc_utf8 s) = 4 + length s"
  by (simp_all add: enc_bool_def enc_blob_def enc_utf8_def)

lemma read_enc [wire_reads]:
  "cur_rest c = to_be_bytes_u32 v @ rest \<Longrightarrow> read_u32 c = Ok (v, cur_adv 4 c)"
  "cur_rest c = enc_bool t @ rest \<Longrightarrow> read_bool c = Ok (t, cur_adv 1 c)"
  "cur_rest c = enc_blob d @ rest \<Longrightarrow> blob_ok d \<Longrightarrow> read_string c = Ok (d, cur_adv (4 + length d) c)"
  "cur_rest c = enc_utf8 s @ rest \<Longrightarrow> str_ok s \<Longrightarrow> read_utf8 c = Ok (s, cur_adv (4 + length s) c)"
  "cur_rest c = enc_names ns @ rest \<Longrightarrow> names_ok ns \<Longrightarrow>
     read_name_list c = Ok (ns, cur_adv (length (enc_names ns)) c)"
  using u32_item.rd_wr [of c v rest] bool_item.rd_wr [of c t rest] blob_item.rd_wr [of d c rest]
    utf8_item.rd_wr [of s c rest] names_item.rd_wr [of ns c rest]
  by (simp_all add: enc_bool_def enc_blob_def enc_utf8_def enc_names_def write_u32_def)

text \<open>Fields that end the data: the same rules with nothing behind the field.\<close>

lemmas read_enc_last [wire_reads] = read_enc [where rest = "[]", simplified]


section \<open>What a successful read has consumed\<close>

lemma take_drop_be_u32:
  "4 \<le> length xs \<Longrightarrow> to_be_bytes_u32 (from_be_bytes_u32 (take 4 xs)) @ drop 4 xs = xs"
  by (simp add: to_from_be_bytes_u32)

text \<open>Every branch of \<open>read_string\<close>, over the bytes that are left.\<close>

lemma read_string_eq:
  "read_string c =
     (if length (cur_rest c) < 4 then Err (InvalidPacket ''Failed to read string length'')
      else if unat (from_be_bytes_u32 (take 4 (cur_rest c))) > MAX_PACKET_SIZE
      then Err (InvalidPacket ''String too long'')
      else if length (cur_rest c) - 4 < unat (from_be_bytes_u32 (take 4 (cur_rest c)))
      then Err (InvalidPacket ''Truncated string'')
      else Ok (take (unat (from_be_bytes_u32 (take 4 (cur_rest c)))) (drop 4 (cur_rest c)),
               cur_adv (4 + unat (from_be_bytes_u32 (take 4 (cur_rest c)))) c))"
  by (simp add: read_string_def cur_read_u32_def cur_read_exact_def Let_def)

lemma read_string_OkD:
  assumes "read_string c = Ok (d, c')"
  shows "cur_rest c = enc_blob d @ cur_rest c'" and "blob_ok d" and "c' = cur_adv (4 + length d) c"
proof -
  let ?n = "unat (from_be_bytes_u32 (take 4 (cur_rest c)))"
  from assms have four: "4 \<le> length (cur_rest c)" and le: "?n \<le> MAX_PACKET_SIZE"
    and fits: "?n \<le> length (cur_rest c) - 4" and d: "d = take ?n (drop 4 (cur_rest c))"
    and c': "c' = cur_adv (4 + ?n) c"
    by (simp_all add: read_string_eq not_less split: if_splits)
  then have len: "length d = ?n" by simp
  then show "blob_ok d" and "c' = cur_adv (4 + length d) c" using le c' by (simp_all add: blob_ok_def)
  have "of_nat (length d) = from_be_bytes_u32 (take 4 (cur_rest c))" by (simp add: len)
  moreover have "d @ cur_rest c' = drop 4 (cur_rest c)"
    using append_take_drop_id [of ?n "drop 4 (cur_rest c)"]
    unfolding d c' cur_rest_adv drop_drop by (simp only: add.commute)
  ultimately have "enc_blob d @ cur_rest c' = to_be_bytes_u32 (from_be_bytes_u32 (take 4 (cur_rest c))) @ drop 4 (cur_rest c)"
    by (simp add: enc_blob_def write_append)
  with four show "cur_rest c = enc_blob d @ cur_rest c'" by (simp add: take_drop_be_u32)
qed

lemma read_utf8_OkD:
  assumes "read_utf8 c = Ok (s, c')"
  shows "cur_rest c = enc_utf8 s @ cur_rest c'" and "str_ok s" and "c' = cur_adv (4 + length s) c"
proof -
  from assms obtain d where r: "read_string c = Ok (d, c')" and "from_utf8 d = Some s"
    by (auto simp: read_utf8_def)
  then have "valid_str s" and d: "as_bytes s = d" by (auto dest: from_utf8_SomeD)
  with read_string_OkD [OF r] show "cur_rest c = enc_utf8 s @ cur_rest c'" and "str_ok s"
    and "c' = cur_adv (4 + length s) c"
    by (auto simp: enc_utf8_def write_utf8_def enc_blob_def str_ok_def blob_ok_def)
qed

section \<open>Serialization and deserialization\<close>

text \<open>What the code relies on of \<open>RngCore::fill_bytes\<close>: it fills the whole buffer.\<close>

definition fills :: "('g \<Rightarrow> nat \<Rightarrow> bytes \<times> 'g) \<Rightarrow> bool" where
  "fills fill \<longleftrightarrow> (\<forall>g n. length (fst (fill g n)) = n)"

definition packet_length :: "SshPacket \<Rightarrow> nat \<Rightarrow> nat" where
  "packet_length pkt block_size =
     2 + length (payload pkt) + padding_len (max block_size 8) (1 + length (payload pkt))"

lemma padding_len_bounds:
  assumes "0 < bs"
  shows "MIN_PADDING \<le> padding_len bs n" and "padding_len bs n < MIN_PADDING + bs"
    and "(1 + n + padding_len bs n) mod bs = 0"
proof -
  let ?m = "1 + n + MIN_PADDING"
  show "MIN_PADDING \<le> padding_len bs n" by (simp add: padding_len_def Let_def)
  show "padding_len bs n < MIN_PADDING + bs" using assms by (simp add: padding_len_def Let_def)
  have "(?m + (bs - ?m mod bs)) mod bs = (?m mod bs + (bs - ?m mod bs)) mod bs"
    by (simp only: mod_add_left_eq)
  also have "\<dots> = 0" using assms by simp
  finally show "(1 + n + padding_len bs n) mod bs = 0"
    by (simp add: padding_len_def Let_def add.assoc)
qed

text \<open>Serialization succeeds exactly when the packet fits, and then writes this layout.\<close>

lemma serialize_eq:
  "serialize fill pkt bs rng =
     (if packet_length pkt bs > MAX_PACKET_SIZE
      then (Err (InvalidPacket (''Packet too large: '' @ show_nat (packet_length pkt bs) @ '' bytes'')), rng)
      else (Ok (to_be_bytes_u32 (of_nat (packet_length pkt bs)) @
                of_nat (padding_len (max bs 8) (1 + length (payload pkt))) #
                msg_type pkt # payload pkt @
                fst (fill rng (padding_len (max bs 8) (1 + length (payload pkt))))),
            snd (fill rng (padding_len (max bs 8) (1 + length (payload pkt))))))"
  by (simp add: serialize_def packet_length_def Let_def split_beta)

lemma deserialize_layout:
  assumes "n = 2 + length pl + unat pad" and "n \<le> MAX_PACKET_SIZE"
    and "unat pad \<le> length random"
  shows "deserialize (to_be_bytes_u32 (of_nat n) @ pad # mt # pl @ random) = Ok \<lparr>msg_type = mt, payload = pl\<rparr>"
proof -
  let ?data = "to_be_bytes_u32 (of_nat n) @ pad # mt # pl @ random"
  have n: "unat (of_nat n :: u32) = n" using assms(2) by (rule of_nat_len_u32)
  have len: "length ?data \<ge> 4 + n" using assms(1,3) by simp
  have 1: "cur_read_u32 (cursor_new ?data) = Some (of_nat n, cur_adv 4 (cursor_new ?data))"
    by (rule cur_read_u32_at [where rest = "pad # mt # pl @ random"]) simp
  have 2: "cur_read_u8 (cur_adv 4 (cursor_new ?data)) = Some (pad, cur_adv 5 (cursor_new ?data))"
    using cur_read_u8_at [of "cur_adv 4 (cursor_new ?data)" pad "mt # pl @ random"] by simp
  have 3: "cur_read_u8 (cur_adv 5 (cursor_new ?data)) = Some (mt, cur_adv 6 (cursor_new ?data))"
    using cur_read_u8_at [of "cur_adv 5 (cursor_new ?data)" mt "pl @ random"] by simp
  have 4: "cur_read_exact (length pl) (cur_adv 6 (cursor_new ?data)) =
             Some (pl, cur_adv (6 + length pl) (cursor_new ?data))"
    using cur_read_exact_at [of "cur_adv 6 (cursor_new ?data)" pl random] by simp
  have "n - 1 - unat pad = Suc (length pl)" and "\<not> n \<le> unat pad" and "\<not> length ?data < 6"
    using assms(1) by simp_all
  with assms(2) n len show ?thesis
    unfolding deserialize_def by (simp add: Let_def 1 2 3 4 del: length_append length_Cons)
qed


lemma serialize_OkD:
  assumes "fills fill" and "serialize fill pkt bs rng = (Ok out, rng')"
  obtains random where "length random = padding_len (max bs 8) (1 + length (payload pkt))"
    and "packet_length pkt bs \<le> MAX_PACKET_SIZE"
    and "out = to_be_bytes_u32 (of_nat (packet_length pkt bs)) @
           of_nat (length random) # msg_type pkt # payload pkt @ random"
  using assms by (auto simp: serialize_eq fills_def split: if_splits)

lemma serialize_deserialize:
  assumes fill: "fills fill" and bs: "bs \<le> 252"
    and ser: "serialize fill pkt bs rng = (Ok out, rng')"
  shows "deserialize (out @ extra) = Ok pkt"
proof -
  from fill ser obtain random
    where len: "length random = padding_len (max bs 8) (1 + length (payload pkt))"
    and max: "packet_length pkt bs \<le> MAX_PACKET_SIZE"
    and out: "out = to_be_bytes_u32 (of_nat (packet_length pkt bs)) @
                of_nat (length random) # msg_type pkt # payload pkt @ random"
    by (rule serialize_OkD)
  have "length random < 256"
    using padding_len_bounds(2) [of "max bs 8" "1 + length (payload pkt)"] bs
    unfolding len MIN_PADDING_def by linarith
  then have pad: "unat (of_nat (length random) :: u8) = length random" by (simp add: unat_of_nat_u8)
  have "deserialize (to_be_bytes_u32 (of_nat (packet_length pkt bs)) @
          of_nat (length random) # msg_type pkt # payload pkt @ (random @ extra)) =
        Ok \<lparr>msg_type = msg_type pkt, payload = payload pkt\<rparr>"
    by (rule deserialize_layout) (use max pad len in \<open>auto simp: packet_length_def\<close>)
  then show ?thesis by (simp add: out)
qed

lemma deserialize_OkD:
  assumes "deserialize data = Ok pkt"
  shows "6 + length (payload pkt) \<le> length data" and "length (payload pkt) + 2 \<le> MAX_PACKET_SIZE"
proof -
  from assms obtain n pad where "\<not> length data < 6" "\<not> n > MAX_PACKET_SIZE" "\<not> length data < 4 + n"
    "\<not> unat (pad :: u8) \<ge> n" "n - 1 - unat pad \<noteq> 0" "length (payload pkt) = n - 1 - unat pad - 1"
    unfolding deserialize_def
    by (auto simp: Let_def cur_read_exact_def split: if_splits)
  then show "6 + length (payload pkt) \<le> length data" and "length (payload pkt) + 2 \<le> MAX_PACKET_SIZE"
    by linarith+
qed

lemma deserialize_eq:
  assumes "6 \<le> length data"
  defines "n \<equiv> unat (from_be_bytes_u32 (take 4 data))"
  defines "pad \<equiv> unat (data ! 4)"
  shows "deserialize data =
     (if n > MAX_PACKET_SIZE
      then Err (InvalidPacket (''Packet length too large: '' @ show_nat n))
      else if length data < 4 + n then Err (InvalidPacket ''Incomplete packet data'')
      else if pad \<ge> n then Err (InvalidPacket ''Invalid padding length'')
      else if n - 1 - pad = 0 then Err (InvalidPacket ''Empty payload'')
      else Ok \<lparr>msg_type = data ! 5, payload = take (n - 1 - pad - 1) (drop 6 data)\<rparr>)"
proof -
  let ?c = "cursor_new data"
  have "cur_read_u32 ?c = Some (from_be_bytes_u32 (take 4 data), cur_adv 4 ?c)"
    using assms(1) by (simp add: cur_read_u32_def cur_read_exact_def)
  moreover have "cur_read_u8 (cur_adv 4 ?c) = Some (data ! 4, cur_adv 5 ?c)"
    using assms(1) by (simp add: cur_read_u8_def cur_read_exact_def hd_drop_conv_nth)
  moreover have "cur_read_u8 (cur_adv 5 ?c) = Some (data ! 5, cur_adv 6 ?c)"
    using assms(1) by (simp add: cur_read_u8_def cur_read_exact_def hd_drop_conv_nth)
  ultimately show ?thesis
    using assms(1) by (auto simp: deserialize_def Let_def n_def pad_def cur_read_exact_def)
qed

lemma serialize_length:
  assumes "fills fill" and "serialize fill pkt bs rng = (Ok out, rng')"
  shows "(length out - 4) mod max bs 8 = 0" and "4 + max bs 8 \<le> length out"
    and "length out = 4 + packet_length pkt bs"
    and "packet_length pkt bs \<le> MAX_PACKET_SIZE"
    and "take 4 out = to_be_bytes_u32 (of_nat (packet_length pkt bs))"
proof -
  let ?pad = "padding_len (max bs 8) (1 + length (payload pkt))"
  from assms obtain random where "length random = ?pad" "packet_length pkt bs \<le> MAX_PACKET_SIZE"
    and "out = to_be_bytes_u32 (of_nat (packet_length pkt bs)) @
           of_nat (length random) # msg_type pkt # payload pkt @ random"
    by (rule serialize_OkD)
  then show len: "length out = 4 + packet_length pkt bs" and "packet_length pkt bs \<le> MAX_PACKET_SIZE"
    and "take 4 out = to_be_bytes_u32 (of_nat (packet_length pkt bs))"
    by (auto simp: packet_length_def)
  have "length out - 4 = 1 + (1 + length (payload pkt)) + ?pad"
    using len by (simp add: packet_length_def)
  then show mod0: "(length out - 4) mod max bs 8 = 0"
    using padding_len_bounds(3) [of "max bs 8" "1 + length (payload pkt)"] by simp
  have "max bs 8 \<le> length out - 4"
  proof (rule ccontr)
    assume "\<not> max bs 8 \<le> length out - 4"
    then have "(length out - 4) mod max bs 8 = length out - 4" by (intro mod_less) (simp only: not_le)
    with mod0 len show False by (simp add: packet_length_def)
  qed
  then show "4 + max bs 8 \<le> length out" using len by simp
qed

section \<open>Properties of the codec\<close>

lemma ignore_packet_bytes:
  "serialize (\<lambda>(g :: unit) n. (replicate n 7, g)) (SshPacket_new Ignore [1, 2, 3, 4]) 8 () =
     (Ok ([0, 0, 0, 16, 10, 2, 1, 2, 3, 4] @ replicate 10 7), ())"
  by (simp add: serialize_def SshPacket_new_def padding_len_def size_consts to_be_bytes_u32_eval)

text \<open>C18. Serializing a packet and deserializing the bytes returns the same packet, whatever
  random padding was drawn and whatever follows the packet in the buffer, for every block
  size up to 252 bytes (the transport uses 8 and 16).\<close>

theorem packet_roundtrip:
  assumes "fills fill" and "bs \<le> 252" and "serialize fill pkt bs rng = (Ok out, rng')"
  shows "deserialize (out @ extra) = Ok pkt"
  using assms by (rule serialize_deserialize)

theorem packet_roundtrip_witness:
  "deserialize ([0, 0, 0, 16, 10, 2, 1, 2, 3, 4] @ replicate 10 7 @ [9, 9]) =
     Ok (SshPacket_new Ignore [1, 2, 3, 4])"
proof -
  let ?fill = "\<lambda>(g :: unit) n. (replicate n (7 :: u8), g)"
  have "fills ?fill" by (simp add: fills_def)
  moreover have "(8 :: nat) \<le> 252" by simp
  moreover have "serialize ?fill (SshPacket_new Ignore [1, 2, 3, 4]) 8 () =
      (Ok ([0, 0, 0, 16, 10, 2, 1, 2, 3, 4] @ replicate 10 7), ())"
    by (rule ignore_packet_bytes)
  ultimately show ?thesis
    using packet_roundtrip [of ?fill 8 "SshPacket_new Ignore [1, 2, 3, 4]" "()" _ "()" "[9, 9]"]
    by simp
qed

text \<open>C25. A serialized packet is the 4-byte length field followed by a whole number of
  blocks, has at least 4 bytes of padding and at most a block more, and stays within the
  maximal packet size.\<close>

theorem packet_alignment:
  assumes "fills fill" and "serialize fill pkt bs rng = (Ok out, rng')"
  shows "(length out - 4) mod max bs 8 = 0 \<and>
         (\<exists>pad. length out = 6 + length (payload pkt) + pad \<and> 4 \<le> pad \<and> pad < 4 + max bs 8) \<and>
         length out \<le> 4 + MAX_PACKET_SIZE \<and> 4 + max bs 8 \<le> length out"
proof -
  let ?pad = "padding_len (max bs 8) (1 + length (payload pkt))"
  have "4 \<le> ?pad \<and> ?pad < 4 + max bs 8"
    using padding_len_bounds(1,2) [of "max bs 8" "1 + length (payload pkt)"]
    by (simp add: MIN_PADDING_def)
  with serialize_length [OF assms] show ?thesis by (auto simp: packet_length_def)
qed

theorem packet_alignment_witness:
  "(length ([0, 0, 0, 16, 10, 2, 1, 2, 3, 4] @ replicate 10 (7 :: u8)) - 4) mod max 8 8 = 0"
proof -
  have fill: "fills (\<lambda>(g :: unit) n. (replicate n (7 :: u8), g))" by (simp add: fills_def)
  show ?thesis using packet_alignment [OF fill ignore_packet_bytes] by (rule conjunct1)
qed


text \<open>C39. Under encryption (blocks of 16 bytes) exactly the payloads of at most 34986 bytes
  can be sent; a longer one is refused with an error.\<close>

theorem serialize_capacity:
  "(\<exists>out rng'. serialize fill pkt 16 rng = (Ok out, rng')) \<longleftrightarrow> length (payload pkt) \<le> 34986"
proof -
  let ?n = "length (payload pkt)"
  have "packet_length pkt 16 \<le> MAX_PACKET_SIZE \<longleftrightarrow> ?n \<le> 34986"
  proof -
    have "packet_length pkt 16 mod 16 = 0" and lo: "6 + ?n \<le> packet_length pkt 16"
      and hi: "packet_length pkt 16 < 22 + ?n"
      using padding_len_bounds [of 16 "1 + ?n"] by (simp_all add: packet_length_def MIN_PADDING_def)
    then obtain k where k: "packet_length pkt 16 = 16 * k" by (auto simp: mod_eq_0_iff_dvd elim: dvdE)
    show ?thesis
    proof
      assume "packet_length pkt 16 \<le> MAX_PACKET_SIZE"
      then have "k \<le> 2187" using k by (simp add: MAX_PACKET_SIZE_def)
      with lo k show "?n \<le> 34986" by linarith
    next
      assume "?n \<le> 34986"
      with hi k have "k < 2188" by linarith
      with k show "packet_length pkt 16 \<le> MAX_PACKET_SIZE" by (simp add: MAX_PACKET_SIZE_def)
    qed
  qed
  then show ?thesis by (auto simp: serialize_eq)
qed


text \<open>An SSH string is read exactly where one was written: \<open>read_string\<close> succeeds on
  the encodings of byte strings of at most \<open>MAX_PACKET_SIZE\<close> bytes and on nothing else, and
  stops right behind the encoding.\<close>

theorem read_string_exact:
  "read_string c = Ok (d, c') \<longleftrightarrow>
     length d \<le> MAX_PACKET_SIZE \<and> (\<exists>rest. cur_rest c = write_string [] d @ rest) \<and>
     c' = cur_adv (length (write_string [] d)) c"
  (is "?l = ?r")
proof
  assume ?l
  from read_string_OkD [OF this] show ?r by (auto simp: enc_blob_def blob_ok_def)
next
  assume ?r
  then show ?l using blob_item.rd_wr [of d c] by (auto simp: blob_ok_def)
qed

text \<open>A list of algorithm names is read back as it was written, when no name holds a
  comma and the joined list is a string the reader accepts.\<close>

theorem name_list_roundtrip:
  assumes "names_ok names"
  shows "read_name_list (cur_adv (length buf) (cursor_new (write_name_list buf names @ rest))) =
           Ok (names, cur_adv (length (write_name_list buf names)) (cursor_new (write_name_list buf names @ rest)))"
  using assms by (rule names_item.rd_behind)

theorem name_list_roundtrip_witness:
  "read_name_list (cur_adv (length [1, 2]) (cursor_new (write_name_list [1, 2] [''aes256-ctr'', ''aes128-ctr''] @ [3]))) =
     Ok ([''aes256-ctr'', ''aes128-ctr''],
         cur_adv (length (write_name_list [1, 2] [''aes256-ctr'', ''aes128-ctr'']))
           (cursor_new (write_name_list [1, 2] [''aes256-ctr'', ''aes128-ctr''] @ [3])))"
proof -
  have "ascii_str ''aes256-ctr,aes128-ctr''" by code_simp
  then have "names_ok [''aes256-ctr'', ''aes128-ctr'']"
    by (simp add: names_ok_def str_ok_def valid_str_ascii MAX_PACKET_SIZE_def)
  from name_list_roundtrip [OF this, of "[1, 2]" "[3]"] show ?thesis by simp
qed

text \<open>C38. A multi-precision integer that is not zero is written as the shortest byte string
  with the same value whose sign bit is clear.\<close>

theorem write_mpint_correct:
  assumes "\<exists>b \<in> set val. b \<noteq> 0"
  shows "\<exists>m. write_mpint buf val = write_string buf m \<and> be_nat m = be_nat val \<and>
             m \<noteq> [] \<and> hd m < 0x80 \<and> (hd m = 0 \<longrightarrow> 1 < length m \<and> 0x80 \<le> m ! 1)"
proof -
  let ?s = "dropWhile (\<lambda>b. b = 0) val"
  from assms obtain x xs where s: "?s = x # xs"
    by (cases ?s) auto
  have v: "be_nat (x # xs) = be_nat val" using be_nat_dropWhile_0 [of val] s by simp
  show ?thesis
  proof (cases "0x80 \<le> x")
    case True
    with s have "write_mpint buf val = write_string buf (0 # x # xs)"
      by (simp add: write_mpint_def write_append high_bit_iff [simplified])
    with True v show ?thesis by (intro exI [of _ "0 # x # xs"]) simp
  next
    case False
    with s have "write_mpint buf val = write_string buf (x # xs)"
      by (simp add: write_mpint_def write_append high_bit_iff [simplified])
    with False v dropWhile_0_hd [OF s] show ?thesis by (intro exI [of _ "x # xs"]) simp
  qed
qed

theorem write_mpint_correct_witness:
  "\<exists>m. write_mpint [] [0, 0x80, 1] = write_string [] m \<and> be_nat m = be_nat [0, 0x80, 1] \<and>
       m \<noteq> [] \<and> hd m < 0x80 \<and> (hd m = 0 \<longrightarrow> 1 < length m \<and> 0x80 \<le> m ! 1)"
  by (rule write_mpint_correct) simp

text \<open>Zero is written as the one-byte string 0, where RFC 4251 prescribes the empty
  string.\<close>

theorem write_mpint_zero: "write_mpint buf (replicate n 0) = write_string buf [0]"
proof -
  have "dropWhile (\<lambda>b. b = 0) (replicate n (0 :: u8)) = []"
    by (simp add: dropWhile_eq_Nil_conv)
  then show ?thesis by (simp add: write_mpint_def write_append)
qed

end
