(* ===== verification/Crypto.thy ===== *)
theory Crypto
  imports Packet_Codec
begin

unbundle bit_operations_syntax

text \<open>
  The cryptographic layer of \<open>src/crypto/mod.rs\<close>. AES, HMAC and SHA-256 are the crates
  \<open>aes\<close>, \<open>ctr\<close>, \<open>hmac\<close> and \<open>sha2\<close>: operations of a record that every definition takes
  as an argument. Their digests are arrays of 32 bytes by type, here 256-bit words; what
  else the code relies on is stated as \<open>stream_cipher\<close> (applying the keystream keeps the
  length, can be done piecewise and undoes itself) and \<open>mac_verifies\<close> (a tag verifies
  exactly when it is the computed one).

  Shown here: a key derivation equals the construction of RFC 4253, section 7.2, has the
  requested length and terminates; the two mpint encoders of the program agree; a text
  encrypted in one piece is decrypted in two.
\<close>

section \<open>Arrays of 32 bytes and the primitives\<close>

type_synonym array32 = "256 word"

definition arr32 :: "array32 \<Rightarrow> bytes" where
  "arr32 a = be_bytes 32 (unat a)"

definition arr32_of :: "bytes \<Rightarrow> array32" where
  "arr32_of bs = of_nat (be_nat bs)"

record 'c crypto_ops =
  aes256_ctr_new :: "bytes \<Rightarrow> bytes \<Rightarrow> 'c"
  apply_keystream :: "'c \<Rightarrow> bytes \<Rightarrow> bytes \<times> 'c"
  hmac_sha256 :: "bytes \<Rightarrow> bytes \<Rightarrow> array32"
  hmac_verify_slice :: "bytes \<Rightarrow> bytes \<Rightarrow> bytes \<Rightarrow> bool"
  sha256 :: "bytes \<Rightarrow> array32"

definition stream_cipher :: "('c, 'z) crypto_ops_scheme \<Rightarrow> bool" where
  "stream_cipher X \<longleftrightarrow>
     (\<forall>c d. length (fst (apply_keystream X c d)) = length d) \<and>
     (\<forall>c d e. apply_keystream X c (d @ e) =
        (fst (apply_keystream X c d) @ fst (apply_keystream X (snd (apply_keystream X c d)) e),
         snd (apply_keystream X (snd (apply_keystream X c d)) e))) \<and>
     (\<forall>c d. apply_keystream X c (fst (apply_keystream X c d)) = (d, snd (apply_keystream X c d)))"

definition mac_verifies :: "('c, 'z) crypto_ops_scheme \<Rightarrow> bool" where
  "mac_verifies X \<longleftrightarrow> (\<forall>k d tag. hmac_verify_slice X k d tag \<longleftrightarrow> tag = arr32 (hmac_sha256 X k d))"

section \<open>Ciphers\<close>

record 'c AesCipher =
  cipher :: 'c

definition AesCipher_new ::
  "('c, 'z) crypto_ops_scheme \<Rightarrow> bytes \<Rightarrow> bytes \<Rightarrow> 'c AesCipher outcome" where
  "AesCipher_new X key iv =
     (if length key \<noteq> 32
      then Err (Encryption (''AES-256 key must be 32 bytes, got '' @ show_nat (length key)))
      else if length iv \<noteq> 16
      then Err (Encryption (''AES IV must be 16 bytes, got '' @ show_nat (length iv)))
      else Ok \<lparr>cipher = aes256_ctr_new X key iv\<rparr>)"

definition AesCipher_apply ::
  "('c, 'z) crypto_ops_scheme \<Rightarrow> 'c AesCipher \<Rightarrow> bytes \<Rightarrow> bytes \<times> 'c AesCipher" where
  "AesCipher_apply X self data =
     (let (out, c) = apply_keystream X (cipher self) data in (out, self\<lparr>cipher := c\<rparr>))"

record 'c CipherPair =
  encrypt :: "'c AesCipher"
  decrypt :: "'c AesCipher"

definition CipherPair_new ::
  "('c, 'z) crypto_ops_scheme \<Rightarrow> bytes \<Rightarrow> bytes \<Rightarrow> bytes \<Rightarrow> bytes \<Rightarrow> 'c CipherPair outcome" where
  "CipherPair_new X enc_key enc_iv dec_key dec_iv =
     and_then (AesCipher_new X enc_key enc_iv) (\<lambda>e.
       and_then (AesCipher_new X dec_key dec_iv) (\<lambda>d.
         Ok \<lparr>encrypt = e, decrypt = d\<rparr>))"

section \<open>Message authentication\<close>

definition compute_hmac :: "('c, 'z) crypto_ops_scheme \<Rightarrow> bytes \<Rightarrow> bytes \<Rightarrow> bytes" where
  "compute_hmac X key data = arr32 (hmac_sha256 X key data)"

definition verify_hmac ::
  "('c, 'z) crypto_ops_scheme \<Rightarrow> bytes \<Rightarrow> bytes \<Rightarrow> bytes \<Rightarrow> unit outcome" where
  "verify_hmac X key data expected =
     (if hmac_verify_slice X key data expected then Ok () else Err MacMismatch)"

section \<open>Key derivation\<close>

definition encode_mpint_for_hash :: "bytes \<Rightarrow> bytes" where
  "encode_mpint_for_hash data =
     (let stripped = (case dropWhile (\<lambda>b. b = 0) data of [] \<Rightarrow> [0] | s \<Rightarrow> s);
          buf = (if stripped = [] \<or> hd stripped AND 0x80 \<noteq> 0
                 then to_be_bytes_u32 (of_nat (length stripped + 1)) @ [0]
                 else to_be_bytes_u32 (of_nat (length stripped)))
      in buf @ stripped)"

lemma length_arr32 [simp]: "length (arr32 a) = 32"
  by (simp add: arr32_def)

text \<open>The \<open>while\<close> loop of \<open>derive_key\<close>: every round appends one digest.\<close>

function derive_rounds ::
  "('c, 'z) crypto_ops_scheme \<Rightarrow> bytes \<Rightarrow> bytes \<Rightarrow> nat \<Rightarrow> bytes \<Rightarrow> bytes" where
  "derive_rounds X k_mpint exchange_hash needed key =
     (if length key < needed
      then let k_n = arr32 (sha256 X (k_mpint @ exchange_hash @ key))
           in derive_rounds X k_mpint exchange_hash needed (key @ k_n)
      else key)"
  by pat_completeness auto
termination
  by (relation "measure (\<lambda>(X, k, h, needed, key). needed - length key)") auto

declare derive_rounds.simps [simp del]

definition derive_key ::
  "('c, 'z) crypto_ops_scheme \<Rightarrow> bytes \<Rightarrow> bytes \<Rightarrow> u8 \<Rightarrow> bytes \<Rightarrow> nat \<Rightarrow> bytes" where
  "derive_key X shared_secret exchange_hash key_char session_id needed =
     (let k_mpint = encode_mpint_for_hash shared_secret;
          k_n = arr32 (sha256 X (k_mpint @ exchange_hash @ [key_char] @ session_id));
          key = derive_rounds X k_mpint exchange_hash needed k_n
      in take needed key)"

section \<open>The reference construction of RFC 4253, section 7.2\<close>

text \<open>\<open>K1 = HASH(K || H || X || session_id)\<close>, \<open>K(i+1) = HASH(K || H || K1 || \<dots> || Ki)\<close>; the
  key material is \<open>K1 || K2 || \<dots>\<close>, here its first \<open>i + 1\<close> blocks.\<close>

primrec rfc_key_material ::
  "('c, 'z) crypto_ops_scheme \<Rightarrow> bytes \<Rightarrow> bytes \<Rightarrow> u8 \<Rightarrow> bytes \<Rightarrow> nat \<Rightarrow> bytes" where
  "rfc_key_material X K H c sid 0 = arr32 (sha256 X (K @ H @ [c] @ sid))"
| "rfc_key_material X K H c sid (Suc i) =
     rfc_key_material X K H c sid i @ arr32 (sha256 X (K @ H @ rfc_key_material X K H c sid i))"

lemma length_rfc_key_material [simp]: "length (rfc_key_material X K H c sid i) = 32 * (i + 1)"
  by (induction i) auto

lemma rfc_key_material_prefix:
  "take (32 * (i + 1)) (rfc_key_material X K H c sid (i + j)) = rfc_key_material X K H c sid i"
  by (induction j) auto

lemma rfc_key_material_take:
  assumes "n \<le> 32 * (i + 1)" and "n \<le> 32 * (j + 1)"
  shows "take n (rfc_key_material X K H c sid i) = take n (rfc_key_material X K H c sid j)"
proof -
  have le: "take n (rfc_key_material X K H c sid (i + j)) = take n (rfc_key_material X K H c sid i)"
    if "n \<le> 32 * (i + 1)" for i j
  proof -
    have "take n (take (32 * (i + 1)) (rfc_key_material X K H c sid (i + j))) =
          take n (rfc_key_material X K H c sid (i + j))"
      using that by (simp only: take_take min.absorb1)
    then show ?thesis by (simp only: rfc_key_material_prefix)
  qed
  show ?thesis
  proof (cases "i \<le> j")
    case True
    with le [OF assms(1), of "j - i"] show ?thesis by simp
  next
    case False
    with le [OF assms(2), of "i - j"] show ?thesis by simp
  qed
qed

lemma derive_rounds_material:
  "\<exists>j. derive_rounds X K H needed (rfc_key_material X K H c sid i) = rfc_key_material X K H c sid j \<and>
       needed \<le> 32 * (j + 1)"
proof (induction "needed - 32 * (i + 1)" arbitrary: i rule: less_induct)
  case less
  show ?case
  proof (cases "32 * (i + 1) < needed")
    case True
    then have "needed - 32 * (Suc i + 1) < needed - 32 * (i + 1)" by simp
    from less [OF this] True show ?thesis
      by (subst derive_rounds.simps) (simp add: Let_def)
  next
    case False
    then show ?thesis by (intro exI [of _ i]) (simp add: derive_rounds.simps)
  qed
qed

lemma derive_key_eq:
  assumes "needed \<le> 32 * (i + 1)"
  shows "derive_key X ss H c sid needed =
           take needed (rfc_key_material X (encode_mpint_for_hash ss) H c sid i)"
proof -
  let ?K = "encode_mpint_for_hash ss"
  obtain j where j: "derive_rounds X ?K H needed (rfc_key_material X ?K H c sid 0) = rfc_key_material X ?K H c sid j"
    and "needed \<le> 32 * (j + 1)"
    using derive_rounds_material [of X ?K H needed c sid 0] by auto
  with rfc_key_material_take [of needed j i] assms show ?thesis
    by (simp add: derive_key_def Let_def)
qed

lemma length_derive_key [simp]: "length (derive_key X ss H c sid needed) = needed"
proof -
  have "needed \<le> 32 * (needed + 1)" by simp
  from derive_key_eq [OF this, of X ss H c sid] show ?thesis by simp
qed

section \<open>Facts on ciphers and arrays\<close>

lemma arr32_of_arr32 [simp]: "arr32_of (arr32 a) = a"
proof -
  have "unat a < 256 ^ 32" using unsigned_less [of a, where ?'a = nat] by simp
  then have "unat a mod 256 ^ 32 = unat a" by (rule mod_less)
  then show ?thesis unfolding arr32_of_def arr32_def be_nat_be_bytes by (simp only:) simp
qed

lemma arr32_arr32_of: "length bs = 32 \<Longrightarrow> arr32 (arr32_of bs) = bs"
proof -
  assume len: "length bs = 32"
  have "be_nat bs < 2 ^ 256" using be_nat_less [of bs] by (simp add: len)
  then have "unat (of_nat (be_nat bs) :: array32) = be_nat bs"
    by (simp add: unat_of_nat take_bit_eq_mod)
  then show ?thesis using be_bytes_be_nat [of bs] by (simp add: len arr32_def arr32_of_def)
qed

lemma arr32_inject [simp]: "arr32 a = arr32 b \<longleftrightarrow> a = b"
  by (metis arr32_of_arr32)

lemma AesCipher_apply_simps:
  "fst (AesCipher_apply X c d) = fst (apply_keystream X (cipher c) d)"
  "cipher (snd (AesCipher_apply X c d)) = snd (apply_keystream X (cipher c) d)"
  by (simp_all add: AesCipher_apply_def split_beta)

lemma stream_cipherD:
  assumes "stream_cipher X"
  shows "length (fst (apply_keystream X c d)) = length d"
    and "apply_keystream X c (d @ e) =
        (fst (apply_keystream X c d) @ fst (apply_keystream X (snd (apply_keystream X c d)) e),
         snd (apply_keystream X (snd (apply_keystream X c d)) e))"
    and "apply_keystream X c (fst (apply_keystream X c d)) = (d, snd (apply_keystream X c d))"
  using assms by (simp_all add: stream_cipher_def)

lemma keystream_take_drop:
  assumes "stream_cipher X"
  shows "fst (apply_keystream X c (take n d)) = take n (fst (apply_keystream X c d))"
    and "fst (apply_keystream X (snd (apply_keystream X c (take n d))) (drop n d)) = drop n (fst (apply_keystream X c d))"
    and "snd (apply_keystream X (snd (apply_keystream X c (take n d))) (drop n d)) = snd (apply_keystream X c d)"
proof -
  note split = stream_cipherD(2) [OF assms, of c "take n d" "drop n d", simplified]
  note len = stream_cipherD(1) [OF assms]
  have nil: "fst (apply_keystream X c' []) = []" for c' using len [of c' "[]"] by simp
  show "fst (apply_keystream X c (take n d)) = take n (fst (apply_keystream X c d))"
  proof (cases "n \<le> length d")
    case True
    then show ?thesis by (simp add: split len)
  qed (simp add: len)
  show "fst (apply_keystream X (snd (apply_keystream X c (take n d))) (drop n d)) = drop n (fst (apply_keystream X c d))"
  proof (cases "n \<le> length d")
    case True
    then show ?thesis by (simp add: split len)
  qed (simp add: len nil)
  show "snd (apply_keystream X (snd (apply_keystream X c (take n d))) (drop n d)) = snd (apply_keystream X c d)"
    by (simp add: split)
qed

lemma AesCipher_apply_undo:
  assumes X: "stream_cipher X" and same: "cipher c = cipher c'"
    and enc: "AesCipher_apply X c d = (e, c1)"
  shows "\<exists>c2 c3. AesCipher_apply X c' (take n e) = (take n d, c2) \<and>
                 AesCipher_apply X c2 (drop n e) = (drop n d, c3) \<and> cipher c3 = cipher c1"
    and "\<exists>c3. AesCipher_apply X c' e = (d, c3) \<and> cipher c3 = cipher c1"
    and "length e = length d"
proof -
  let ?c = "cipher c"
  have e: "e = fst (apply_keystream X ?c d)" and c1: "cipher c1 = snd (apply_keystream X ?c d)"
    using enc by (auto simp: AesCipher_apply_def split_beta)
  have undo: "apply_keystream X ?c e = (d, cipher c1)"
    using stream_cipherD(3) [OF X, of ?c d] by (simp add: e c1)
  note td = keystream_take_drop [OF X, of ?c n e, unfolded undo fst_conv snd_conv]
  show "\<exists>c2 c3. AesCipher_apply X c' (take n e) = (take n d, c2) \<and>
                AesCipher_apply X c2 (drop n e) = (drop n d, c3) \<and> cipher c3 = cipher c1"
    using td same by (auto simp: AesCipher_apply_def split_beta)
  show "\<exists>c3. AesCipher_apply X c' e = (d, c3) \<and> cipher c3 = cipher c1"
    using undo same by (simp add: AesCipher_apply_def)
  show "length e = length d" using stream_cipherD(1) [OF X] by (simp add: e)
qed


section \<open>Properties of the cryptographic layer\<close>

text \<open>A cipher and digests to evaluate the definitions with.\<close>

definition demo_crypto :: "u8 crypto_ops" where
  "demo_crypto =
     \<lparr>aes256_ctr_new = (\<lambda>key iv. hd key XOR hd iv),
      apply_keystream = (\<lambda>c d. (map (\<lambda>b. b XOR c) d, c)),
      hmac_sha256 = (\<lambda>k d. of_nat (be_nat (k @ d))),
      hmac_verify_slice = (\<lambda>k d tag. tag = arr32 (of_nat (be_nat (k @ d)))),
      sha256 = (\<lambda>d. of_nat (be_nat d))\<rparr>"

lemma demo_crypto_laws: "stream_cipher demo_crypto" "mac_verifies demo_crypto"
  by (simp_all add: demo_crypto_def stream_cipher_def mac_verifies_def comp_def xor.assoc)

text \<open>The two encoders of multi-precision integers, of the codec and of the key
  derivation, produce the same bytes.\<close>

theorem encode_mpint_agrees: "encode_mpint_for_hash data = write_mpint [] data"
  by (auto simp: encode_mpint_for_hash_def write_mpint_def Let_def split: list.splits)


text \<open>What one cipher object encrypted, a second one in the same state decrypts, also when
  the ciphertext arrives in two pieces, and both objects end in the same state: the packets
  of a session can be decrypted one after the other.\<close>

theorem cipher_roundtrip:
  assumes "stream_cipher X" and "cipher c = cipher c'" and "AesCipher_apply X c d = (e, c1)"
  shows "\<exists>c2 c3. AesCipher_apply X c' (take n e) = (take n d, c2) \<and>
                 AesCipher_apply X c2 (drop n e) = (drop n d, c3) \<and> cipher c3 = cipher c1"
  using assms by (rule AesCipher_apply_undo(1))

theorem cipher_roundtrip_witness:
  "\<exists>c2 c3. AesCipher_apply demo_crypto \<lparr>cipher = 0x42\<rparr> (take 2 [0x43, 0x40, 0x41]) = (take 2 [1, 2, 3], c2) \<and>
           AesCipher_apply demo_crypto c2 (drop 2 [0x43, 0x40, 0x41]) = (drop 2 [1, 2, 3], c3) \<and>
           cipher c3 = cipher \<lparr>cipher = 0x42 :: u8\<rparr>"
proof (rule cipher_roundtrip)
  show "stream_cipher demo_crypto" by (rule demo_crypto_laws)
  show "cipher \<lparr>cipher = 0x42 :: u8\<rparr> = cipher \<lparr>cipher = 0x42\<rparr>" by simp
  show "AesCipher_apply demo_crypto \<lparr>cipher = 0x42\<rparr> [1, 2, 3] = ([0x43, 0x40, 0x41], \<lparr>cipher = 0x42\<rparr>)"
    by (simp add: AesCipher_apply_def demo_crypto_def)
qed

text \<open>A pair of ciphers is made exactly from two 32-byte keys and two 16-byte IVs; any
  other length is an \<open>Encryption\<close> error.\<close>

theorem CipherPair_new_iff:
  "(if length k1 = 32 \<and> length iv1 = 16 \<and> length k2 = 32 \<and> length iv2 = 16
    then CipherPair_new X k1 iv1 k2 iv2 =
           Ok \<lparr>encrypt = \<lparr>cipher = aes256_ctr_new X k1 iv1\<rparr>, decrypt = \<lparr>cipher = aes256_ctr_new X k2 iv2\<rparr>\<rparr>
    else \<exists>msg. CipherPair_new X k1 iv1 k2 iv2 = Err (Encryption msg))"
  by (simp add: CipherPair_new_def AesCipher_new_def)

lemma CipherPair_new_Ok:
  "length k1 = 32 \<Longrightarrow> length iv1 = 16 \<Longrightarrow> length k2 = 32 \<Longrightarrow> length iv2 = 16 \<Longrightarrow>
   CipherPair_new X k1 iv1 k2 iv2 =
     Ok \<lparr>encrypt = \<lparr>cipher = aes256_ctr_new X k1 iv1\<rparr>, decrypt = \<lparr>cipher = aes256_ctr_new X k2 iv2\<rparr>\<rparr>"
  by (simp add: CipherPair_new_def AesCipher_new_def)

lemma verify_hmac_iff:
  "mac_verifies X \<Longrightarrow> verify_hmac X k d tag = (if tag = compute_hmac X k d then Ok () else Err MacMismatch)"
  by (simp add: verify_hmac_def compute_hmac_def mac_verifies_def)

lemma length_compute_hmac [simp]: "length (compute_hmac X k d) = 32"
  by (simp add: compute_hmac_def)

end
