(* ===== verification/Session.thy ===== *)
theory Session
  imports Crypto
begin

text \<open>
  The per-connection session state of \<open>src/session/mod.rs\<close>: the two packet sequence
  numbers, the session identifier, and the keys of the two directions.
\<close>

datatype SessionState = VersionExchange | KeyExchange | Authenticated | Active | Disconnected

record 'c SessionKeys =
  send_seq :: u32
  recv_seq :: u32
  session_id :: "bytes option"
  ciphers :: "'c CipherPair option"
  send_mac_key :: "bytes option"
  recv_mac_key :: "bytes option"

definition SessionKeys_new :: "'c SessionKeys" where
  "SessionKeys_new =
     \<lparr>send_seq = 0, recv_seq = 0, session_id = None, ciphers = None,
      send_mac_key = None, recv_mac_key = None\<rparr>"

definition next_send_seq :: "'c SessionKeys \<Rightarrow> u32 \<times> 'c SessionKeys" where
  "next_send_seq k = (let seq = send_seq k in (seq, k\<lparr>send_seq := send_seq k + 1\<rparr>))"

definition next_recv_seq :: "'c SessionKeys \<Rightarrow> u32 \<times> 'c SessionKeys" where
  "next_recv_seq k = (let seq = recv_seq k in (seq, k\<lparr>recv_seq := recv_seq k + 1\<rparr>))"

definition is_encrypted :: "'c SessionKeys \<Rightarrow> bool" where
  "is_encrypted k \<longleftrightarrow> ciphers k \<noteq> None"

section \<open>Matched sessions\<close>

text \<open>What the sending and the receiving half of a session consist of: the sequence number,
  the MAC key and the state of the cipher. A sending half fits the receiving half of the
  peer when they are equal.\<close>

definition send_half :: "'c SessionKeys \<Rightarrow> u32 \<times> bytes option \<times> 'c option" where
  "send_half k = (send_seq k, send_mac_key k, map_option (\<lambda>cp. cipher (encrypt cp)) (ciphers k))"

definition recv_half :: "'c SessionKeys \<Rightarrow> u32 \<times> bytes option \<times> 'c option" where
  "recv_half k = (recv_seq k, recv_mac_key k, map_option (\<lambda>cp. cipher (decrypt cp)) (ciphers k))"

definition fits :: "'c SessionKeys \<Rightarrow> 'c SessionKeys \<Rightarrow> bool" where
  "fits a b \<longleftrightarrow> send_half a = recv_half b"

definition matched :: "'c SessionKeys \<Rightarrow> 'c SessionKeys \<Rightarrow> bool" where
  "matched a b \<longleftrightarrow> fits a b \<and> fits b a"

lemma matched_new: "matched SessionKeys_new SessionKeys_new"
  by (simp add: matched_def fits_def send_half_def recv_half_def SessionKeys_new_def)

lemma matched_sym: "matched a b \<Longrightarrow> matched b a"
  by (auto simp: matched_def)

lemma is_encrypted_halves:
  "is_encrypted k \<longleftrightarrow> snd (snd (send_half k)) \<noteq> None"
  "is_encrypted k \<longleftrightarrow> snd (snd (recv_half k)) \<noteq> None"
  by (auto simp: is_encrypted_def send_half_def recv_half_def)

lemma fits_encrypted: "fits a b \<Longrightarrow> is_encrypted a = is_encrypted b"
  by (simp add: fits_def is_encrypted_halves(1) [of a] is_encrypted_halves(2) [of b])

lemma fits_new: "fits SessionKeys_new SessionKeys_new"
  using matched_new by (simp add: matched_def)

lemma next_seq_simps [simp]:
  "next_send_seq k = (send_seq k, k\<lparr>send_seq := send_seq k + 1\<rparr>)"
  "next_recv_seq k = (recv_seq k, k\<lparr>recv_seq := recv_seq k + 1\<rparr>)"
  by (simp_all add: next_send_seq_def next_recv_seq_def)

end
