(* ===== verification/Transport_IO.thy ===== *)
theory Transport_IO
  imports Session
begin

text \<open>
  Packet I/O of \<open>src/transport/io.rs\<close>: sending and receiving packets with optional
  encryption and MAC, and the exchange of version lines.

  The stream types are generic in the source (\<open>R: AsyncReadExt\<close>, \<open>W: AsyncWriteExt\<close>), so
  their operations are part of the record \<open>ext_ops\<close> of everything outside the program, which
  extends the cryptographic primitives; random bytes and X25519 are there too. An \<open>endpoint\<close>
  holds the local variables of a connection task that the functions here change: reader,
  writer, session keys and the random source. The stream contracts \<open>reader_law\<close> (the bytes
  that will arrive are read in order, a short stream is an error) and \<open>writer_law\<close> (written
  bytes are appended) are hypotheses of the theorems that need them.

  The locale \<open>packet_link\<close> is what the protocol code relies on: a packet sent by one side is
  received by the other, which stays in step. It is established for \<open>send_packet\<close> and
  \<open>recv_packet\<close>, with in-order delivery of any number of packets as its consequence.
\<close>

section \<open>Everything outside the program\<close>

record ('c, 'r, 'w, 'g) ext_ops = "'c crypto_ops" +
  read_exact :: "'r \<Rightarrow> nat \<Rightarrow> (io_error + bytes) \<times> 'r"
  write_all :: "'w \<Rightarrow> bytes \<Rightarrow> (io_error + unit) \<times> 'w"
  flush :: "'w \<Rightarrow> (io_error + unit) \<times> 'w"
  fill_bytes :: "'g \<Rightarrow> nat \<Rightarrow> bytes \<times> 'g"
  random_secret :: "'g \<Rightarrow> array32 \<times> 'g"
  x25519_public :: "array32 \<Rightarrow> array32"
  x25519_dh :: "array32 \<Rightarrow> array32 \<Rightarrow> array32"

record ('c, 'r, 'w, 'g) endpoint =
  rdr :: 'r
  wtr :: 'w
  sess :: "'c SessionKeys"
  rng :: 'g

definition reader_law :: "('c, 'r, 'w, 'g) ext_ops \<Rightarrow> ('r \<Rightarrow> bytes) \<Rightarrow> bool" where
  "reader_law X avail \<longleftrightarrow>
     (\<forall>r n. if n \<le> length (avail r)
            then fst (read_exact X r n) = Inr (take n (avail r)) \<and>
                 avail (snd (read_exact X r n)) = drop n (avail r)
            else \<exists>e. fst (read_exact X r n) = Inl e)"

definition writer_law :: "('c, 'r, 'w, 'g) ext_ops \<Rightarrow> ('w \<Rightarrow> bytes) \<Rightarrow> bool" where
  "writer_law X sent \<longleftrightarrow>
     (\<forall>w d. fst (write_all X w d) = Inr () \<and> sent (snd (write_all X w d)) = sent w @ d) \<and>
     (\<forall>w. fst (flush X w) = Inr () \<and> sent (snd (flush X w)) = sent w)"

section \<open>Stream operations on an endpoint\<close>

definition read_bytes :: "('c, 'r, 'w, 'g) ext_ops \<Rightarrow> nat \<Rightarrow> (('c, 'r, 'w, 'g) endpoint, bytes) stateful" where
  "read_bytes X n s =
     (let (res, r) = read_exact X (rdr s) n in (io_result res, s\<lparr>rdr := r\<rparr>))"

text \<open>The same with the end of the stream reported as a closed connection.\<close>

definition read_bytes_or_closed ::
  "('c, 'r, 'w, 'g) ext_ops \<Rightarrow> nat \<Rightarrow> (('c, 'r, 'w, 'g) endpoint, bytes) stateful" where
  "read_bytes_or_closed X n s =
     (let (res, r) = read_exact X (rdr s) n
      in (case res of
            Inl e \<Rightarrow> if e = UnexpectedEof then Err ConnectionClosed else Err (Io e)
          | Inr bs \<Rightarrow> Ok bs, s\<lparr>rdr := r\<rparr>))"

definition write_bytes :: "('c, 'r, 'w, 'g) ext_ops \<Rightarrow> bytes \<Rightarrow> (('c, 'r, 'w, 'g) endpoint, unit) stateful" where
  "write_bytes X d s =
     (let (res, w) = write_all X (wtr s) d in (io_result res, s\<lparr>wtr := w\<rparr>))"

definition flush_writer :: "('c, 'r, 'w, 'g) ext_ops \<Rightarrow> (('c, 'r, 'w, 'g) endpoint, unit) stateful" where
  "flush_writer X s = (let (res, w) = flush X (wtr s) in (io_result res, s\<lparr>wtr := w\<rparr>))"

section \<open>send_packet\<close>

definition block_size :: "'c SessionKeys \<Rightarrow> nat" where
  "block_size keys = (if is_encrypted keys then AES_BLOCK_SIZE else 8)"

definition serialize_packet ::
  "('c, 'r, 'w, 'g) ext_ops \<Rightarrow> SshPacket \<Rightarrow> (('c, 'r, 'w, 'g) endpoint, bytes) stateful" where
  "serialize_packet X pkt s =
     (let (res, g) = serialize (fill_bytes X) pkt (block_size (sess s)) (rng s) in (res, s\<lparr>rng := g\<rparr>))"

definition encrypt_data ::
  "('c, 'z) crypto_ops_scheme \<Rightarrow> bytes \<Rightarrow> 'c SessionKeys \<Rightarrow> bytes \<times> 'c SessionKeys" where
  "encrypt_data X data keys =
     (case ciphers keys of
        None \<Rightarrow> (data, keys)
      | Some cp \<Rightarrow> (let (out, e) = AesCipher_apply X (encrypt cp) data
                   in (out, keys\<lparr>ciphers := Some (cp\<lparr>encrypt := e\<rparr>)\<rparr>)))"

definition decrypt_data ::
  "('c, 'z) crypto_ops_scheme \<Rightarrow> bytes \<Rightarrow> 'c SessionKeys \<Rightarrow> bytes \<times> 'c SessionKeys" where
  "decrypt_data X data keys =
     (case ciphers keys of
        None \<Rightarrow> (data, keys)
      | Some cp \<Rightarrow> (let (out, d) = AesCipher_apply X (decrypt cp) data
                   in (out, keys\<lparr>ciphers := Some (cp\<lparr>decrypt := d\<rparr>)\<rparr>)))"

definition send_packet ::
  "('c, 'r, 'w, 'g) ext_ops \<Rightarrow> SshPacket \<Rightarrow> (('c, 'r, 'w, 'g) endpoint, unit) stateful" where
  "send_packet X packet =
     bind_st (serialize_packet X packet) (\<lambda>data s.
       let (seq, keys) = next_send_seq (sess s);
           mac = (case send_mac_key keys of
                    Some mac_key \<Rightarrow>
                      (let mac_data = to_be_bytes_u32 seq @ data in Some (compute_hmac X mac_key mac_data))
                  | None \<Rightarrow> None);
           (data, keys) = encrypt_data X data keys
       in bind_st (write_bytes X data) (\<lambda>_.
            bind_st (case mac of Some mac \<Rightarrow> write_bytes X mac | None \<Rightarrow> return_st ()) (\<lambda>_.
              flush_writer X)) (s\<lparr>sess := keys\<rparr>))"

section \<open>recv_packet\<close>

text \<open>The bytes behind the first block; \<open>total - block_size\<close> is \<open>usize\<close> arithmetic. When it
  underflows, a build with overflow checks panics, and one without asks for a vector of more
  than \<open>isize::MAX\<close> bytes, which panics too.\<close>

definition recv_rest ::
  "('c, 'r, 'w, 'g) ext_ops \<Rightarrow> nat \<Rightarrow> nat \<Rightarrow> (('c, 'r, 'w, 'g) endpoint, bytes) stateful" where
  "recv_rest X total_len blk =
     (if total_len < blk then lift_st Panic
      else let remaining = total_len - blk in
           if remaining > 0
           then bind_st (read_bytes X remaining) (\<lambda>rest s.
                  let (rest, keys) = decrypt_data X rest (sess s) in (Ok rest, s\<lparr>sess := keys\<rparr>))
           else return_st [])"

definition check_mac ::
  "('c, 'r, 'w, 'g) ext_ops \<Rightarrow> u32 \<Rightarrow> bytes \<Rightarrow> (('c, 'r, 'w, 'g) endpoint, unit) stateful" where
  "check_mac X seq full_data s =
     (case recv_mac_key (sess s) of
        Some mac_key \<Rightarrow>
          bind_st (read_bytes X HMAC_SHA256_SIZE) (\<lambda>mac_buf.
            let mac_data = to_be_bytes_u32 seq @ full_data
            in lift_st (verify_hmac X mac_key mac_data mac_buf)) s
      | None \<Rightarrow> (Ok (), s))"

definition recv_packet ::
  "('c, 'r, 'w, 'g) ext_ops \<Rightarrow> (('c, 'r, 'w, 'g) endpoint, SshPacket) stateful" where
  "recv_packet X s0 =
     (let blk = block_size (sess s0) in
      bind_st (read_bytes_or_closed X blk) (\<lambda>first_block s.
        let (first_block, keys) = decrypt_data X first_block (sess s);
            s = s\<lparr>sess := keys\<rparr>;
            packet_length = unat (from_be_bytes_u32 (take 4 first_block))
        in if packet_length > MAX_PACKET_SIZE
           then (Err (InvalidPacket (''Packet length too large: '' @ show_nat packet_length)), s)
           else bind_st (recv_rest X (4 + packet_length) blk) (\<lambda>rest s.
                  let full_data = first_block @ rest;
                      (seq, keys) = next_recv_seq (sess s)
                  in bind_st (check_mac X seq full_data) (\<lambda>_.
                       lift_st (deserialize full_data)) (s\<lparr>sess := keys\<rparr>)) s) s0)"

section \<open>Version exchange\<close>

definition send_version_string ::
  "('c, 'r, 'w, 'g) ext_ops \<Rightarrow> string \<Rightarrow> (('c, 'r, 'w, 'g) endpoint, unit) stateful" where
  "send_version_string X version =
     (let line = version @ [CHR 0x0D, CHR 0x0A]
      in bind_st (write_bytes X (as_bytes line)) (\<lambda>_. flush_writer X))"

function recv_version_loop ::
  "('c, 'r, 'w, 'g) ext_ops \<Rightarrow> bytes \<Rightarrow> (('c, 'r, 'w, 'g) endpoint, bytes) stateful" where
  "recv_version_loop X buf s =
     (case read_bytes_or_closed X 1 s of
        (Ok byte, s) \<Rightarrow>
          (let buf = buf @ [hd byte] in
           if length buf > 255 then (Err (Protocol ''Version string too long''), s)
           else if ends_with buf [0x0D, 0x0A] then (Ok buf, s)
           else recv_version_loop X buf s)
      | (Err e, s) \<Rightarrow> (Err e, s)
      | (Panic, s) \<Rightarrow> (Panic, s))"
  by pat_completeness auto
termination
  by (relation "measure (\<lambda>(X, buf, s). 256 - length buf)") auto

declare recv_version_loop.simps [simp del]

definition recv_version_string ::
  "('c, 'r, 'w, 'g) ext_ops \<Rightarrow> (('c, 'r, 'w, 'g) endpoint, string) stateful" where
  "recv_version_string X =
     bind_st (recv_version_loop X []) (\<lambda>buf.
       let buf = take (length buf - 2) buf in
       bind_st (lift_st (ok_or (from_utf8 buf) (Protocol ''Invalid UTF-8 in version string''))) (\<lambda>version.
         if take 8 version \<noteq> ''SSH-2.0-''
         then fail_st (Protocol (''Unsupported protocol version: '' @ version))
         else return_st version))"


section \<open>Stream operations under the stream laws\<close>

lemma read_bytes_Ok:
  assumes "reader_law X avail" and "avail (rdr s) = d @ rest" and "n = length d"
  shows "\<exists>r. read_bytes X n s = (Ok d, s\<lparr>rdr := r\<rparr>) \<and> read_bytes_or_closed X n s = (Ok d, s\<lparr>rdr := r\<rparr>) \<and>
             avail r = rest"
proof -
  have "n \<le> length (avail (rdr s))" using assms(2,3) by simp
  with assms(1) have "fst (read_exact X (rdr s) n) = Inr (take n (avail (rdr s))) \<and>
      avail (snd (read_exact X (rdr s) n)) = drop n (avail (rdr s))"
    unfolding reader_law_def by presburger
  with assms(2,3) show ?thesis
    by (intro exI [of _ "snd (read_exact X (rdr s) n)"])
       (simp add: read_bytes_def read_bytes_or_closed_def split_beta)
qed

lemma read_bytes_OkD:
  assumes "reader_law X avail"
    and "read_bytes X n s = (Ok d, t) \<or> read_bytes_or_closed X n s = (Ok d, t)"
  shows "avail (rdr s) = d @ avail (rdr t)" and "length d = n" and "sess t = sess s"
proof -
  from assms(2) have fst: "fst (read_exact X (rdr s) n) = Inr d"
    and t: "t = s\<lparr>rdr := snd (read_exact X (rdr s) n)\<rparr>"
    by (auto simp: read_bytes_def read_bytes_or_closed_def io_result_def split_beta
        split: sum.splits if_splits)
  have law: "if n \<le> length (avail (rdr s))
        then fst (read_exact X (rdr s) n) = Inr (take n (avail (rdr s))) \<and>
             avail (snd (read_exact X (rdr s) n)) = drop n (avail (rdr s))
        else \<exists>e. fst (read_exact X (rdr s) n) = Inl e"
    using assms(1) unfolding reader_law_def by blast
  with fst have "n \<le> length (avail (rdr s))" by (auto split: if_splits)
  with law fst t show "avail (rdr s) = d @ avail (rdr t)" and "length d = n" and "sess t = sess s"
    by auto
qed

lemma write_bytes_Ok:
  assumes "writer_law X sent"
  shows "\<exists>w. write_bytes X d s = (Ok (), s\<lparr>wtr := w\<rparr>) \<and> sent w = sent (wtr s) @ d"
  using assms by (intro exI [of _ "snd (write_all X (wtr s) d)"])
    (simp add: write_bytes_def writer_law_def split_beta)

lemma flush_writer_Ok:
  assumes "writer_law X sent"
  shows "\<exists>w. flush_writer X s = (Ok (), s\<lparr>wtr := w\<rparr>) \<and> sent w = sent (wtr s)"
  using assms by (intro exI [of _ "snd (flush X (wtr s))"])
    (simp add: flush_writer_def writer_law_def split_beta)

section \<open>What a packet looks like on the wire\<close>

definition mac_of :: "('c, 'z) crypto_ops_scheme \<Rightarrow> 'c SessionKeys \<Rightarrow> bytes \<Rightarrow> bytes" where
  "mac_of X keys data =
     (case send_mac_key keys of
        None \<Rightarrow> []
      | Some k \<Rightarrow> compute_hmac X k (to_be_bytes_u32 (send_seq keys) @ data))"

definition sent_keys :: "('c, 'z) crypto_ops_scheme \<Rightarrow> 'c SessionKeys \<Rightarrow> bytes \<Rightarrow> 'c SessionKeys" where
  "sent_keys X keys data = snd (encrypt_data X data (keys\<lparr>send_seq := send_seq keys + 1\<rparr>))"

definition wire_of :: "('c, 'z) crypto_ops_scheme \<Rightarrow> 'c SessionKeys \<Rightarrow> bytes \<Rightarrow> bytes" where
  "wire_of X keys data = fst (encrypt_data X data keys) @ mac_of X keys data"

lemma encrypt_data_send_seq [simp]:
  "fst (encrypt_data X data (keys\<lparr>send_seq := q\<rparr>)) = fst (encrypt_data X data keys)"
  by (simp add: encrypt_data_def split_beta split: option.splits)

lemma send_packet_cases:
  assumes "writer_law X sent"
  shows "case serialize (fill_bytes X) pkt (block_size (sess s)) (rng s) of
           (Ok data, g) \<Rightarrow>
             \<exists>w. send_packet X pkt s = (Ok (), s\<lparr>rng := g, sess := sent_keys X (sess s) data, wtr := w\<rparr>) \<and>
                 sent w = sent (wtr s) @ wire_of X (sess s) data
         | (Err e, g) \<Rightarrow> send_packet X pkt s = (Err e, s\<lparr>rng := g\<rparr>)
         | (Panic, g) \<Rightarrow> send_packet X pkt s = (Panic, s\<lparr>rng := g\<rparr>)"
proof -
  obtain res g where ser: "serialize (fill_bytes X) pkt (block_size (sess s)) (rng s) = (res, g)"
    by (cases "serialize (fill_bytes X) pkt (block_size (sess s)) (rng s)")
  then have sp: "serialize_packet X pkt s = (res, s\<lparr>rng := g\<rparr>)" by (simp add: serialize_packet_def)
  show ?thesis
  proof (cases res)
    case (Ok data)
    let ?enc = "fst (encrypt_data X data (sess s))"
    let ?s1 = "s\<lparr>rng := g, sess := sent_keys X (sess s) data\<rparr>"
    obtain w1 where w1: "write_bytes X ?enc ?s1 = (Ok (), ?s1\<lparr>wtr := w1\<rparr>)"
      and sent1: "sent w1 = sent (wtr s) @ ?enc"
      using write_bytes_Ok [OF assms, of ?enc ?s1] by auto
    obtain w2 where w2: "(case send_mac_key (sess s) of
          Some k \<Rightarrow> write_bytes X (compute_hmac X k (to_be_bytes_u32 (send_seq (sess s)) @ data))
        | None \<Rightarrow> return_st ()) (?s1\<lparr>wtr := w1\<rparr>) = (Ok (), ?s1\<lparr>wtr := w2\<rparr>)"
      and sent2: "sent w2 = sent w1 @ mac_of X (sess s) data"
      using write_bytes_Ok [OF assms, where s = "?s1\<lparr>wtr := w1\<rparr>"]
      by (cases "send_mac_key (sess s)") (fastforce simp: return_st_def mac_of_def)+
    obtain w3 where w3: "flush_writer X (?s1\<lparr>wtr := w2\<rparr>) = (Ok (), ?s1\<lparr>wtr := w3\<rparr>)"
      and sent3: "sent w3 = sent w2"
      using flush_writer_Ok [OF assms, of "?s1\<lparr>wtr := w2\<rparr>"] by auto
    have "send_packet X pkt s = (Ok (), ?s1\<lparr>wtr := w3\<rparr>)"
      using w1 w2 w3 sp Ok
      by (cases "send_mac_key (sess s)")
         (simp_all add: send_packet_def bind_st_def return_st_def Let_def split_beta sent_keys_def)
    with sent1 sent2 sent3 ser Ok show ?thesis by (auto simp: wire_of_def)
  qed (simp_all add: ser send_packet_def bind_st_def sp)
qed

lemma send_packet_OkD:
  assumes "writer_law X sent" and "send_packet X pkt s = (Ok (), s')"
  obtains data g where "serialize (fill_bytes X) pkt (block_size (sess s)) (rng s) = (Ok data, g)"
    and "sess s' = sent_keys X (sess s) data" and "rdr s' = rdr s" and "rng s' = g"
    and "sent (wtr s') = sent (wtr s) @ wire_of X (sess s) data"
  using send_packet_cases [OF assms(1), of pkt s] assms(2)
  by (cases "serialize (fill_bytes X) pkt (block_size (sess s)) (rng s)")
     (auto split: outcome.splits)


section \<open>What the receiver makes of it\<close>

lemma sent_keys_halves:
  "send_half (sent_keys X keys data) =
     (send_seq keys + 1, send_mac_key keys,
      map_option (\<lambda>cp. snd (apply_keystream X (cipher (encrypt cp)) data)) (ciphers keys))"
  "recv_half (sent_keys X keys data) = recv_half keys"
  by (cases "ciphers keys";
      simp add: sent_keys_def encrypt_data_def send_half_def recv_half_def AesCipher_apply_simps split_beta)+

lemma decrypt_data_halves:
  "send_half (snd (decrypt_data X d keys)) = send_half keys"
  "recv_half (snd (decrypt_data X d keys)) =
     (recv_seq keys, recv_mac_key keys,
      map_option (\<lambda>cp. snd (apply_keystream X (cipher (decrypt cp)) d)) (ciphers keys))"
  "fst (decrypt_data X d keys) =
     (case snd (snd (recv_half keys)) of None \<Rightarrow> d | Some c \<Rightarrow> fst (apply_keystream X c d))"
  by (cases "ciphers keys";
      simp add: decrypt_data_def send_half_def recv_half_def AesCipher_apply_simps split_beta)+

lemma decrypt_data_seq [simp]:
  "recv_seq (snd (decrypt_data X d keys)) = recv_seq keys"
  "recv_mac_key (snd (decrypt_data X d keys)) = recv_mac_key keys"
  by (simp_all add: decrypt_data_def split_beta split: option.splits)

text \<open>Decrypting in two pieces what a fitting peer encrypted in one.\<close>

lemma decrypt_fits:
  fixes data :: bytes and n :: nat
  assumes X: "stream_cipher X" and m: "fits a b"
  defines "enc \<equiv> fst (encrypt_data X data a)"
  defines "b1 \<equiv> snd (decrypt_data X (take n enc) b)"
  defines "b2 \<equiv> snd (decrypt_data X (drop n enc) b1)"
  shows "length enc = length data"
    and "fst (decrypt_data X (take n enc) b) = take n data"
    and "fst (decrypt_data X (drop n enc) b1) = drop n data"
    and "fits (sent_keys X a data) (b2\<lparr>recv_seq := recv_seq b + 1\<rparr>)"
    and "send_half (b2\<lparr>recv_seq := recv_seq b + 1\<rparr>) = send_half b"
proof -
  have halves: "send_half a = recv_half b" using m by (simp add: fits_def)
  have goal: "length enc = length data \<and> fst (decrypt_data X (take n enc) b) = take n data \<and>
     fst (decrypt_data X (drop n enc) b1) = drop n data \<and>
     fits (sent_keys X a data) (b2\<lparr>recv_seq := recv_seq b + 1\<rparr>)"
  proof (cases "ciphers a")
    case None
    with halves have "ciphers b = None" by (simp add: send_half_def recv_half_def)
    with None halves show ?thesis
      by (simp add: enc_def b1_def b2_def encrypt_data_def decrypt_data_def sent_keys_def
          fits_def send_half_def recv_half_def)
  next
    case (Some ca)
    with halves obtain cb where cb: "ciphers b = Some cb"
      and same: "cipher (encrypt ca) = cipher (decrypt cb)"
      by (cases "ciphers b") (auto simp: send_half_def recv_half_def)
    let ?c = "cipher (decrypt cb)"
    have enc: "enc = fst (apply_keystream X ?c data)"
      using Some same by (simp add: enc_def encrypt_data_def AesCipher_apply_simps split_beta)
    have undo: "apply_keystream X ?c enc = (data, snd (apply_keystream X ?c data))"
      unfolding enc by (rule stream_cipherD(3) [OF X])
    note td = keystream_take_drop [OF X, of ?c n enc, unfolded undo fst_conv snd_conv]
    have b1: "b1 = b\<lparr>ciphers := Some (cb\<lparr>decrypt := (decrypt cb)\<lparr>cipher := snd (apply_keystream X ?c (take n enc))\<rparr>\<rparr>)\<rparr>"
      using cb by (simp add: b1_def decrypt_data_def AesCipher_apply_def split_beta)
    have "length enc = length data" unfolding enc by (rule stream_cipherD(1) [OF X])
    moreover have "fst (decrypt_data X (take n enc) b) = take n data"
      using cb td(1) by (simp add: decrypt_data_def AesCipher_apply_simps split_beta)
    moreover have "fst (decrypt_data X (drop n enc) b1) = drop n data"
      using td(2) by (simp add: b1 decrypt_data_def AesCipher_apply_simps split_beta)
    moreover have "fits (sent_keys X a data) (b2\<lparr>recv_seq := recv_seq b + 1\<rparr>)"
      using halves Some cb same td(3)
      by (simp add: b2_def b1 decrypt_data_def sent_keys_def encrypt_data_def fits_def send_half_def
          recv_half_def AesCipher_apply_def split_beta)
    ultimately show ?thesis by blast
  qed
  then show "length enc = length data"
    and "fst (decrypt_data X (take n enc) b) = take n data"
    and "fst (decrypt_data X (drop n enc) b1) = drop n data"
    and "fits (sent_keys X a data) (b2\<lparr>recv_seq := recv_seq b + 1\<rparr>)"
    by blast+
  have "send_half (b2\<lparr>recv_seq := recv_seq b + 1\<rparr>) = send_half b2" by (simp add: send_half_def)
  then show "send_half (b2\<lparr>recv_seq := recv_seq b + 1\<rparr>) = send_half b"
    by (simp only: b2_def b1_def decrypt_data_halves(1))
qed


lemma recv_packet_of_wire:
  assumes laws: "stream_cipher X" "mac_verifies X" "reader_law X avail" "fills (fill_bytes X)"
    and m: "fits k (sess t)"
    and ser: "serialize (fill_bytes X) pkt (block_size k) g = (Ok data, g')"
    and inbox: "avail (rdr t) = wire_of X k data @ rest"
  shows "\<exists>t'. recv_packet X t = (Ok pkt, t') \<and> avail (rdr t') = rest \<and>
              fits (sent_keys X k data) (sess t') \<and> send_half (sess t') = send_half (sess t) \<and>
              wtr t' = wtr t \<and> rng t' = rng t"
proof -
  let ?blk = "block_size (sess t)" and ?enc = "fst (encrypt_data X data k)"
  let ?b1 = "snd (decrypt_data X (take ?blk ?enc) (sess t))"
  let ?b2 = "snd (decrypt_data X (drop ?blk ?enc) ?b1)"
  let ?b3 = "?b2\<lparr>recv_seq := recv_seq (sess t) + 1\<rparr>"
  note dl = decrypt_fits(1) [OF laws(1) m, where data = data]
  note dm = decrypt_fits(2-5) [OF laws(1) m, where data = data and n = ?blk]
  have blk: "block_size k = ?blk" using fits_encrypted [OF m] by (simp add: block_size_def)
  then have max: "max ?blk 8 = ?blk" by (simp add: block_size_def AES_BLOCK_SIZE_def)
  note sl = serialize_length [OF laws(4) ser, unfolded blk max]
  have min4: "min 4 ?blk = 4" using max by (simp add: max_def split: if_splits)
  have len4: "unat (from_be_bytes_u32 (take 4 data)) = packet_length pkt ?blk"
    using sl(4,5) by (simp add: of_nat_len_u32)
  have split: "avail (rdr t) = take ?blk ?enc @ (drop ?blk ?enc @ mac_of X k data @ rest)"
    using inbox by (simp add: wire_of_def)
  obtain r1 where r1: "read_bytes_or_closed X ?blk t = (Ok (take ?blk ?enc), t\<lparr>rdr := r1\<rparr>)"
    and a1: "avail r1 = drop ?blk ?enc @ mac_of X k data @ rest"
    using read_bytes_Ok [OF laws(3) split, of ?blk] sl(2) dl by auto
  let ?t1 = "t\<lparr>rdr := r1, sess := ?b1\<rparr>"
  have "avail (rdr ?t1) = drop ?blk ?enc @ (mac_of X k data @ rest)" using a1 by simp
  from read_bytes_Ok [OF laws(3) this, of "4 + packet_length pkt ?blk - ?blk"] obtain r2
    where r2: "read_bytes X (4 + packet_length pkt ?blk - ?blk) ?t1 = (Ok (drop ?blk ?enc), ?t1\<lparr>rdr := r2\<rparr>)"
    and a2: "avail r2 = mac_of X k data @ rest"
    using sl(3) dl by auto
  let ?t2 = "t\<lparr>rdr := r2, sess := ?b3\<rparr>"
  have rr: "recv_rest X (4 + packet_length pkt ?blk) ?blk ?t1 = (Ok (drop ?blk data), t\<lparr>rdr := r2, sess := ?b2\<rparr>)"
    using sl(2,3) r2 dm(2) by (simp add: recv_rest_def bind_st_def split_beta)
  obtain r3 where r3: "check_mac X (recv_seq (sess t)) data ?t2 = (Ok (), ?t2\<lparr>rdr := r3\<rparr>)"
    and a3: "avail r3 = rest"
  proof (cases "recv_mac_key (sess t)")
    case None
    with m a2 that [of r2] show ?thesis
      by (simp add: check_mac_def mac_of_def fits_def send_half_def recv_half_def)
  next
    case (Some mk)
    with m have mk: "send_mac_key k = Some mk" "send_seq k = recv_seq (sess t)"
      by (simp_all add: fits_def send_half_def recv_half_def)
    have "avail (rdr ?t2) = mac_of X k data @ rest" using a2 by simp
    from read_bytes_Ok [OF laws(3) this, of HMAC_SHA256_SIZE] mk obtain r3
      where "read_bytes X HMAC_SHA256_SIZE ?t2 = (Ok (mac_of X k data), ?t2\<lparr>rdr := r3\<rparr>)" "avail r3 = rest"
      by (auto simp: mac_of_def HMAC_SHA256_SIZE_def)
    with Some mk that show ?thesis
      by (simp add: check_mac_def bind_st_def mac_of_def verify_hmac_iff [OF laws(2)] return_st_def)
  qed
  have "block_size k \<le> 252" by (simp add: block_size_def AES_BLOCK_SIZE_def)
  then have "deserialize data = Ok pkt" using serialize_deserialize [OF laws(4) _ ser, of "[]"] by simp
  then have "recv_packet X t = (Ok pkt, t\<lparr>rdr := r3, sess := ?b3\<rparr>)"
    using r1 rr r3 len4 sl(4) dm(1)
    by (simp add: recv_packet_def bind_st_def Let_def split_beta return_st_def min4)
  with a3 dm(3,4) show ?thesis by auto
qed


section \<open>The contract of a packet link\<close>

fun send_all :: "('p \<Rightarrow> ('s, unit) stateful) \<Rightarrow> 'p list \<Rightarrow> ('s, unit) stateful" where
  "send_all send [] = return_st ()"
| "send_all send (p # ps) = bind_st (send p) (\<lambda>_. send_all send ps)"

fun recv_many :: "('t, 'p) stateful \<Rightarrow> nat \<Rightarrow> ('t, 'p list) stateful" where
  "recv_many recv 0 = return_st []"
| "recv_many recv (Suc n) = bind_st recv (\<lambda>p. bind_st (recv_many recv n) (\<lambda>ps. return_st (p # ps)))"

locale packet_link =
  fixes send :: "'p \<Rightarrow> ('s, unit) stateful"
    and recv :: "('t, 'p) stateful"
    and outbox :: "'s \<Rightarrow> bytes"
    and inbox :: "'t \<Rightarrow> bytes"
    and ready :: "'s \<Rightarrow> bool"
    and linked :: "'s \<Rightarrow> 't \<Rightarrow> bool"
  assumes ready_kept: "ready s \<Longrightarrow> send p s = (Ok (), s') \<Longrightarrow> ready s'"
    and deliver: "ready s \<Longrightarrow> send p s = (Ok (), s') \<Longrightarrow>
       \<exists>ws. outbox s' = outbox s @ ws \<and>
         (\<forall>t rest. linked s t \<and> inbox t = ws @ rest \<longrightarrow>
           (\<exists>t'. recv t = (Ok p, t') \<and> inbox t' = rest \<and> linked s' t'))"
begin

lemma deliver_all:
  "ready s \<Longrightarrow> send_all send ps s = (Ok (), s') \<Longrightarrow>
     \<exists>ws. outbox s' = outbox s @ ws \<and>
       (\<forall>t rest. linked s t \<and> inbox t = ws @ rest \<longrightarrow>
         (\<exists>t'. recv_many recv (length ps) t = (Ok ps, t') \<and> inbox t' = rest \<and> linked s' t'))"
proof (induction ps arbitrary: s)
  case Nil
  then show ?case by (simp add: return_st_def)
next
  case (Cons p ps)
  from Cons.prems(2) obtain s1 where s1: "send p s = (Ok (), s1)" and s': "send_all send ps s1 = (Ok (), s')"
    by (auto elim!: bind_st_OkE)
  from deliver [OF Cons.prems(1) s1] obtain ws1 where o1: "outbox s1 = outbox s @ ws1"
    and d1: "\<And>t rest. linked s t \<Longrightarrow> inbox t = ws1 @ rest \<Longrightarrow>
           \<exists>t'. recv t = (Ok p, t') \<and> inbox t' = rest \<and> linked s1 t'" by blast
  from Cons.IH [OF ready_kept [OF Cons.prems(1) s1] s'] obtain ws2 where o2: "outbox s' = outbox s1 @ ws2"
    and d2: "\<And>t rest. linked s1 t \<Longrightarrow> inbox t = ws2 @ rest \<Longrightarrow>
         \<exists>t'. recv_many recv (length ps) t = (Ok ps, t') \<and> inbox t' = rest \<and> linked s' t'" by blast
  have "\<exists>t'. recv_many recv (length (p # ps)) t = (Ok (p # ps), t') \<and> inbox t' = rest \<and> linked s' t'"
    if "linked s t" and "inbox t = (ws1 @ ws2) @ rest" for t rest
  proof -
    from d1 [of t "ws2 @ rest"] that obtain t1 where "recv t = (Ok p, t1)" "inbox t1 = ws2 @ rest" "linked s1 t1"
      by auto
    with d2 [of t1 rest] show ?thesis by (auto simp: bind_st_def return_st_def)
  qed
  with o1 o2 show ?case by (intro exI [of _ "ws1 @ ws2"]) auto
qed

end

definition link_laws ::
  "('c, 'r, 'w, 'g) ext_ops \<Rightarrow> ('r \<Rightarrow> bytes) \<Rightarrow> ('w \<Rightarrow> bytes) \<Rightarrow> bool" where
  "link_laws X avail sent \<longleftrightarrow>
     stream_cipher X \<and> mac_verifies X \<and> reader_law X avail \<and> writer_law X sent \<and> fills (fill_bytes X)"

lemma send_packet_deliver:
  assumes "link_laws X avail sent" and "send_packet X pkt s = (Ok (), s')"
  shows "\<exists>ws. sent (wtr s') = sent (wtr s) @ ws \<and>
     (\<forall>t rest. fits (sess s) (sess t) \<and> avail (rdr t) = ws @ rest \<longrightarrow>
       (\<exists>t'. recv_packet X t = (Ok pkt, t') \<and> avail (rdr t') = rest \<and> fits (sess s') (sess t')))"
proof -
  have laws: "stream_cipher X" "mac_verifies X" "reader_law X avail" "writer_law X sent" "fills (fill_bytes X)"
    using assms(1) by (simp_all add: link_laws_def)
  from laws(4) assms(2) obtain data g
    where ser: "serialize (fill_bytes X) pkt (block_size (sess s)) (rng s) = (Ok data, g)"
    and keys: "sess s' = sent_keys X (sess s) data"
    and out: "sent (wtr s') = sent (wtr s) @ wire_of X (sess s) data"
    by (rule send_packet_OkD)
  show ?thesis
    using recv_packet_of_wire [OF laws(1,2,3,5) _ ser] out
    by (intro exI [of _ "wire_of X (sess s) data"]) (fastforce simp: keys)
qed

interpretation ssh_link: packet_link "send_packet X" "recv_packet X" "\<lambda>s. sent (wtr s)" "\<lambda>t. avail (rdr t)"
    "\<lambda>_. link_laws X avail sent" "\<lambda>s t. fits (sess s) (sess t)"
  for X :: "('c, 'r, 'w, 'g) ext_ops" and avail :: "'r \<Rightarrow> bytes" and sent :: "'w \<Rightarrow> bytes"
  by unfold_locales (auto intro: send_packet_deliver)

section \<open>What a received packet has passed\<close>

lemma recv_rest_OkD:
  assumes "reader_law X avail" and "recv_rest X n blk s = (Ok d, t)"
  shows "\<exists>raw. avail (rdr s) = raw @ avail (rdr t) \<and>
           (raw = [] \<and> d = [] \<or> d = fst (decrypt_data X raw (sess s)))"
    and "recv_seq (sess t) = recv_seq (sess s)" and "recv_mac_key (sess t) = recv_mac_key (sess s)"
    and "send_half (sess t) = send_half (sess s)" and "blk \<le> n"
proof -
  have "(\<exists>raw. avail (rdr s) = raw @ avail (rdr t) \<and>
           (raw = [] \<and> d = [] \<or> d = fst (decrypt_data X raw (sess s)))) \<and> recv_seq (sess t) = recv_seq (sess s) \<and>
      recv_mac_key (sess t) = recv_mac_key (sess s) \<and> send_half (sess t) = send_half (sess s) \<and> blk \<le> n"
  proof (cases "n < blk \<or> n = blk")
    case True
    with assms(2) show ?thesis by (auto simp: recv_rest_def lift_st_def return_st_def)
  next
    case False
    with assms(2) obtain raw s1 where r: "read_bytes X (n - blk) s = (Ok raw, s1)"
      and t: "t = s1\<lparr>sess := snd (decrypt_data X raw (sess s1))\<rparr>" and "d = fst (decrypt_data X raw (sess s1))"
      by (auto simp: recv_rest_def split_beta elim!: bind_st_OkE)
    with read_bytes_OkD [OF assms(1) disjI1 [OF r]] False show ?thesis
      by (auto simp: decrypt_data_halves)
  qed
  then show "\<exists>raw. avail (rdr s) = raw @ avail (rdr t) \<and>
           (raw = [] \<and> d = [] \<or> d = fst (decrypt_data X raw (sess s)))"
    and "recv_seq (sess t) = recv_seq (sess s)" and "recv_mac_key (sess t) = recv_mac_key (sess s)"
    and "send_half (sess t) = send_half (sess s)" and "blk \<le> n"
    by blast+
qed

lemma check_mac_OkD:
  assumes "reader_law X avail" and "check_mac X seq data s = (Ok (), t)"
  shows "\<exists>tag. avail (rdr s) = tag @ avail (rdr t) \<and> sess t = sess s \<and>
           (\<forall>k. recv_mac_key (sess s) = Some k \<longrightarrow>
              length tag = 32 \<and> hmac_verify_slice X k (to_be_bytes_u32 seq @ data) tag)"
proof (cases "recv_mac_key (sess s)")
  case None
  with assms(2) show ?thesis by (simp add: check_mac_def)
next
  case (Some k)
  with assms(2) obtain tag where r: "read_bytes X HMAC_SHA256_SIZE s = (Ok tag, t)"
    and v: "verify_hmac X k (to_be_bytes_u32 seq @ data) tag = Ok ()"
    by (auto simp: check_mac_def lift_st_def elim!: bind_st_OkE)
  with read_bytes_OkD [OF assms(1) disjI1 [OF r]] Some show ?thesis
    by (auto simp: HMAC_SHA256_SIZE_def verify_hmac_def split: if_splits)
qed

lemma decrypt_data_append:
  assumes "stream_cipher X"
  shows "fst (decrypt_data X (a @ b) k) =
           fst (decrypt_data X a k) @ fst (decrypt_data X b (snd (decrypt_data X a k)))"
  by (cases "ciphers k")
     (simp_all add: decrypt_data_def AesCipher_apply_def stream_cipherD(2) [OF assms] split_beta)

lemma decrypt_data_Nil [simp]: "stream_cipher X \<Longrightarrow> fst (decrypt_data X [] k) = []"
  using stream_cipherD(1) [of X _ "[]"]
  by (cases "ciphers k") (simp_all add: decrypt_data_def AesCipher_apply_def split_beta)

lemma recv_packet_OkD:
  assumes X: "reader_law X avail" and ok: "recv_packet X t = (Ok pkt, t')"
  obtains used data tag where "avail (rdr t) = used @ tag @ avail (rdr t')"
    and "block_size (sess t) \<le> length used" and "deserialize data = Ok pkt"
    and "stream_cipher X \<Longrightarrow> data = fst (decrypt_data X used (sess t))"
    and "\<And>k. recv_mac_key (sess t) = Some k \<Longrightarrow>
           length tag = 32 \<and> hmac_verify_slice X k (to_be_bytes_u32 (recv_seq (sess t)) @ data) tag"
    and "recv_seq (sess t') = recv_seq (sess t) + 1"
    and "send_half (sess t') = send_half (sess t)"
proof -
  let ?blk = "block_size (sess t)"
  from ok obtain raw s1 rest s3 where r1: "read_bytes_or_closed X ?blk t = (Ok raw, s1)"
    and r2: "recv_rest X (4 + unat (from_be_bytes_u32 (take 4 (fst (decrypt_data X raw (sess s1))))))
        ?blk (s1\<lparr>sess := snd (decrypt_data X raw (sess s1))\<rparr>) = (Ok rest, s3)"
    and r3: "check_mac X (recv_seq (sess s3)) (fst (decrypt_data X raw (sess s1)) @ rest)
        (s3\<lparr>sess := (sess s3)\<lparr>recv_seq := recv_seq (sess s3) + 1\<rparr>\<rparr>) = (Ok (), t')"
    and d: "deserialize (fst (decrypt_data X raw (sess s1)) @ rest) = Ok pkt"
    unfolding recv_packet_def
    by (auto simp: Let_def split_beta lift_st_def split: if_splits elim!: bind_st_OkE)
  let ?data = "fst (decrypt_data X raw (sess s1)) @ rest"
  let ?s4 = "s3\<lparr>sess := (sess s3)\<lparr>recv_seq := recv_seq (sess s3) + 1\<rparr>\<rparr>"
  note 1 = read_bytes_OkD [OF X disjI2 [OF r1]]
  from recv_rest_OkD [OF X r2] obtain raw2 where 2: "avail (rdr s1) = raw2 @ avail (rdr s3)"
      "raw2 = [] \<and> rest = [] \<or> rest = fst (decrypt_data X raw2 (snd (decrypt_data X raw (sess s1))))"
    and keys: "recv_seq (sess s3) = recv_seq (sess t)" "recv_mac_key (sess s3) = recv_mac_key (sess t)"
      "send_half (sess s3) = send_half (sess t)"
    using 1(3) by (auto simp: decrypt_data_halves)
  from check_mac_OkD [OF X r3] obtain tag where tag: "avail (rdr s3) = tag @ avail (rdr t')" "sess t' = sess ?s4"
    "\<forall>k. recv_mac_key (sess ?s4) = Some k \<longrightarrow>
        length tag = 32 \<and> hmac_verify_slice X k (to_be_bytes_u32 (recv_seq (sess s3)) @ ?data) tag"
    by auto
  show ?thesis
    by (rule that [of "raw @ raw2" tag ?data])
       (use 1 2 keys tag d in \<open>auto simp: send_half_def decrypt_data_append\<close>)
qed



section \<open>Version lines\<close>

lemma recv_version_loop_step:
  assumes "reader_law X avail" and "avail (rdr s) = b # rest"
  shows "\<exists>r. avail r = rest \<and>
     recv_version_loop X buf s =
       (if length buf > 254 then (Err (Protocol ''Version string too long''), s\<lparr>rdr := r\<rparr>)
        else if ends_with (buf @ [b]) [0x0D, 0x0A] then (Ok (buf @ [b]), s\<lparr>rdr := r\<rparr>)
        else recv_version_loop X (buf @ [b]) (s\<lparr>rdr := r\<rparr>))"
  using read_bytes_Ok [OF assms(1), of s "[b]" rest 1] assms(2)
  by (subst recv_version_loop.simps) (auto simp: Let_def)

lemma recv_version_loop_Ok:
  assumes "reader_law X avail"
  shows "avail (rdr s) = bs @ [0x0D, 0x0A] @ rest \<Longrightarrow> 0x0A \<notin> set bs \<Longrightarrow> length buf + length bs \<le> 253 \<Longrightarrow>
    \<exists>r. recv_version_loop X buf s = (Ok (buf @ bs @ [0x0D, 0x0A]), s\<lparr>rdr := r\<rparr>) \<and> avail r = rest"
proof (induction bs arbitrary: buf s)
  case Nil
  have no: "\<not> ends_with (buf @ [0x0D]) [0x0D, 0x0A :: u8]" by (simp add: ends_with_iff)
  have yes: "ends_with (buf @ [0x0D, 0x0A :: u8]) [0x0D, 0x0A]" by (simp add: ends_with_iff)
  from recv_version_loop_step [OF assms, of s "0x0D" "0x0A # rest" buf] Nil.prems no obtain r1
    where 1: "recv_version_loop X buf s = recv_version_loop X (buf @ [0x0D]) (s\<lparr>rdr := r1\<rparr>)"
      "avail r1 = 0x0A # rest" by auto
  from recv_version_loop_step [OF assms, of "s\<lparr>rdr := r1\<rparr>" "0x0A" rest "buf @ [0x0D]"] 1 Nil.prems yes
  show ?case by auto
next
  case (Cons b bs)
  have no: "\<not> ends_with (buf @ [b]) [0x0D, 0x0A]"
    using Cons.prems(2) by (auto simp: ends_with_iff)
  from recv_version_loop_step [OF assms, of s b "bs @ [0x0D, 0x0A] @ rest" buf] Cons.prems no obtain r1
    where 1: "recv_version_loop X buf s = recv_version_loop X (buf @ [b]) (s\<lparr>rdr := r1\<rparr>)"
      "avail r1 = bs @ [0x0D, 0x0A] @ rest" by auto
  from Cons.IH [of "s\<lparr>rdr := r1\<rparr>" "buf @ [b]"] 1 Cons.prems show ?case by auto
qed

lemma recv_version_loop_OkD:
  assumes X: "reader_law X avail"
  shows "recv_version_loop X buf s = (Ok out, t) \<Longrightarrow>
     \<exists>line. out = buf @ line \<and> ends_with out [0x0D, 0x0A] \<and> length out \<le> 255 \<and>
            avail (rdr s) = line @ avail (rdr t) \<and> sess t = sess s"
proof (induction "256 - length buf" arbitrary: buf s rule: less_induct)
  case less
  from less.prems obtain byte s1 where r: "read_bytes_or_closed X 1 s = (Ok byte, s1)"
    by (subst (asm) recv_version_loop.simps) (auto split: prod.splits outcome.splits)
  from read_bytes_OkD [OF X disjI2 [OF r]] obtain b where b: "byte = [b]"
    and av: "avail (rdr s) = b # avail (rdr s1)" "sess s1 = sess s"
    by (cases byte) auto
  have eq: "(if length buf > 254 then (Err (Protocol ''Version string too long''), s1)
        else if ends_with (buf @ [b]) [0x0D, 0x0A] then (Ok (buf @ [b]), s1)
        else recv_version_loop X (buf @ [b]) s1) = (Ok out, t)"
    using less.prems r b by (subst (asm) recv_version_loop.simps) (simp add: Let_def)
  show ?case
  proof (cases "ends_with (buf @ [b]) [0x0D, 0x0A]")
    case True
    with eq av show ?thesis by (auto split: if_splits)
  next
    case False
    with eq have "length buf \<le> 254" and "recv_version_loop X (buf @ [b]) s1 = (Ok out, t)"
      by (auto split: if_splits)
    moreover from this have "256 - length (buf @ [b]) < 256 - length buf" by simp
    ultimately obtain line where "out = (buf @ [b]) @ line" "ends_with out [0x0D, 0x0A]" "length out \<le> 255"
      "avail (rdr s1) = line @ avail (rdr t)" "sess t = sess s1"
      using less.hyps [of "buf @ [b]" s1] by blast
    with av show ?thesis by (intro exI [of _ "b # line"]) simp
  qed
qed

lemma recv_version_string_OkD:
  assumes "reader_law X avail" and "recv_version_string X s = (Ok v, t)"
  shows "avail (rdr s) = as_bytes v @ [0x0D, 0x0A] @ avail (rdr t)" and "valid_str v"
    and "take 8 v = ''SSH-2.0-''" and "length v \<le> 253" and "sess t = sess s"
proof -
  from assms(2) obtain buf s1 where l: "recv_version_loop X [] s = (Ok buf, s1)"
    and k: "(let buf = take (length buf - 2) buf in
       bind_st (lift_st (ok_or (from_utf8 buf) (Protocol ''Invalid UTF-8 in version string''))) (\<lambda>version.
         if take 8 version \<noteq> ''SSH-2.0-''
         then fail_st (Protocol (''Unsupported protocol version: '' @ version))
         else return_st version)) s1 = (Ok v, t)"
    unfolding recv_version_string_def by (elim bind_st_OkE) blast
  from recv_version_loop_OkD [OF assms(1) l] obtain p where p: "buf = p @ [0x0D, 0x0A]"
    and le: "length buf \<le> 255" and av: "avail (rdr s) = buf @ avail (rdr s1)" "sess s1 = sess s"
    by (auto simp: ends_with_iff)
  from k p have "from_utf8 p = Some v" and pre: "take 8 v = ''SSH-2.0-''" and "t = s1"
    by (auto simp: bind_st_def lift_st_def fail_st_def return_st_def ok_or_def split: option.splits if_splits)
  then have "valid_str v" and "as_bytes v = p" by (auto dest: from_utf8_SomeD)
  with p le av pre \<open>t = s1\<close> show "avail (rdr s) = as_bytes v @ [0x0D, 0x0A] @ avail (rdr t)" and "valid_str v"
    and "take 8 v = ''SSH-2.0-''" and "length v \<le> 253" and "sess t = sess s"
    by (auto simp flip: length_as_bytes)
qed

lemma send_version_string_Ok:
  assumes "writer_law X sent"
  shows "\<exists>w. send_version_string X v s = (Ok (), s\<lparr>wtr := w\<rparr>) \<and>
             sent w = sent (wtr s) @ as_bytes v @ [0x0D, 0x0A]"
proof -
  have crlf: "as_bytes (v @ [CHR 0x0D, CHR 0x0A]) = as_bytes v @ [0x0D, 0x0A]"
    by (simp add: as_bytes_def) code_simp
  obtain w1 where w1: "write_bytes X (as_bytes v @ [0x0D, 0x0A]) s = (Ok (), s\<lparr>wtr := w1\<rparr>)"
    "sent w1 = sent (wtr s) @ as_bytes v @ [0x0D, 0x0A]"
    using write_bytes_Ok [OF assms] by metis
  obtain w2 where w2: "flush_writer X (s\<lparr>wtr := w1\<rparr>) = (Ok (), s\<lparr>wtr := w2\<rparr>)" "sent w2 = sent w1"
    using flush_writer_Ok [OF assms, of "s\<lparr>wtr := w1\<rparr>"] by auto
  have "send_version_string X v s = (Ok (), s\<lparr>wtr := w2\<rparr>)"
    using w1(1) w2(1) unfolding send_version_string_def Let_def crlf by (simp add: bind_st_def)
  with w1(2) w2(2) show ?thesis by auto
qed

definition version_ok :: "string \<Rightarrow> bool" where
  "version_ok v \<longleftrightarrow> take 8 v = ''SSH-2.0-'' \<and> valid_str v \<and> 0x0A \<notin> set (as_bytes v) \<and> length v \<le> 253"

lemma recv_version_string_Ok:
  assumes "reader_law X avail" and "avail (rdr s) = as_bytes v @ [0x0D, 0x0A] @ rest" and "version_ok v"
  shows "\<exists>r. recv_version_string X s = (Ok v, s\<lparr>rdr := r\<rparr>) \<and> avail r = rest"
  using recv_version_loop_Ok [OF assms(1,2), of "[]"] assms(3)
  by (auto simp: recv_version_string_def bind_st_def version_ok_def return_st_def)


section \<open>Sending succeeds\<close>

lemma serialize_small:
  assumes "length (payload pkt) \<le> 34970" and "bs \<le> 16"
  shows "\<exists>data g'. serialize fill pkt bs g = (Ok data, g')"
proof -
  have "padding_len (max bs 8) (1 + length (payload pkt)) < 20"
    using padding_len_bounds(2) [of "max bs 8" "1 + length (payload pkt)"] assms(2)
    unfolding MIN_PADDING_def by linarith
  with assms(1) have "packet_length pkt bs \<le> MAX_PACKET_SIZE"
    by (simp add: packet_length_def MAX_PACKET_SIZE_def)
  then show ?thesis by (simp add: serialize_eq)
qed

lemma send_packet_small:
  assumes "writer_law X sent" and "length (payload pkt) \<le> 34970"
  shows "\<exists>s'. send_packet X pkt s = (Ok (), s')"
proof -
  have "block_size (sess s) \<le> 16" by (simp add: block_size_def AES_BLOCK_SIZE_def)
  from serialize_small [OF assms(2) this, of "fill_bytes X" "rng s"] obtain data g
    where "serialize (fill_bytes X) pkt (block_size (sess s)) (rng s) = (Ok data, g)" by blast
  with send_packet_cases [OF assms(1), of pkt s] show ?thesis by auto
qed

lemma send_all_small:
  assumes "writer_law X sent" and "\<forall>p \<in> set ps. length (payload p) \<le> 34970"
  shows "\<exists>s'. send_all (send_packet X) ps s = (Ok (), s')"
  using assms(2)
proof (induction ps arbitrary: s)
  case Nil
  then show ?case by (simp add: return_st_def)
next
  case (Cons p ps)
  with send_packet_small [OF assms(1), of p s] show ?case by (auto simp: bind_st_def)
qed

text \<open>An in-memory stream with a simple cipher, to evaluate the definitions with.\<close>

definition demo_ext :: "(u8, bytes, bytes, unit) ext_ops" where
  "demo_ext = crypto_ops.extend demo_crypto
     \<lparr>read_exact = (\<lambda>r n. if n \<le> length r then (Inr (take n r), drop n r) else (Inl UnexpectedEof, [])),
      write_all = (\<lambda>w d. (Inr (), w @ d)),
      flush = (\<lambda>w. (Inr (), w)),
      fill_bytes = (\<lambda>g n. (replicate n 0, g)),
      random_secret = (\<lambda>g. (7, g)),
      x25519_public = (\<lambda>a. 9 * a),
      x25519_dh = (\<lambda>a b. a * b)\<rparr>"

definition demo_endpoint :: "bytes \<Rightarrow> (u8, bytes, bytes, unit) endpoint" where
  "demo_endpoint inp = \<lparr>rdr = inp, wtr = [], sess = SessionKeys_new, rng = ()\<rparr>"

lemma demo_link_laws: "link_laws demo_ext (\<lambda>r. r) (\<lambda>w. w)"
  using demo_crypto_laws
  by (simp add: link_laws_def reader_law_def writer_law_def fills_def demo_ext_def crypto_ops.defs
      stream_cipher_def mac_verifies_def)


definition demo_session :: "u8 SessionKeys" where
  "demo_session = SessionKeys_new
     \<lparr>ciphers := Some \<lparr>encrypt = \<lparr>cipher = 0x42\<rparr>, decrypt = \<lparr>cipher = 0x42\<rparr>\<rparr>,
      send_mac_key := Some [1], recv_mac_key := Some [1]\<rparr>"

lemma demo_session_fits: "fits demo_session demo_session"
  by (simp add: demo_session_def SessionKeys_new_def fits_def send_half_def recv_half_def)

section \<open>Properties of the transport\<close>

text \<open>C3. Packets sent by one side are received by a side whose receiving half fits the sending
  half, in the order they were sent, with the same types and payloads; nothing of what follows
  them is consumed, and the halves fit again afterwards. This holds for any number of packets,
  with and without encryption and MAC, whatever travels in the other direction meanwhile.\<close>

theorem packets_in_order:
  assumes "link_laws X avail sent" and "send_all (send_packet X) ps s = (Ok (), s')"
  shows "\<exists>ws. sent (wtr s') = sent (wtr s) @ ws \<and>
     (\<forall>t rest. fits (sess s) (sess t) \<and> avail (rdr t) = ws @ rest \<longrightarrow>
       (\<exists>t'. recv_many (recv_packet X) (length ps) t = (Ok ps, t') \<and> avail (rdr t') = rest \<and>
             fits (sess s') (sess t')))"
  using assms by (rule ssh_link.deliver_all)

theorem packets_in_order_witness:
  "\<exists>s' ws. send_all (send_packet demo_ext) [SshPacket_new Ignore [1, 2], SshPacket_new NewKeys []]
             ((demo_endpoint [])\<lparr>sess := demo_session\<rparr>) = (Ok (), s') \<and> wtr s' = ws \<and>
     (\<exists>t'. recv_many (recv_packet demo_ext) 2 ((demo_endpoint ws)\<lparr>sess := demo_session\<rparr>) =
             (Ok [SshPacket_new Ignore [1, 2], SshPacket_new NewKeys []], t') \<and> rdr t' = [])"
proof -
  let ?ps = "[SshPacket_new Ignore [1, 2], SshPacket_new NewKeys []]"
  let ?s = "(demo_endpoint [])\<lparr>sess := demo_session\<rparr>"
  have "writer_law demo_ext (\<lambda>w. w)" using demo_link_laws by (simp add: link_laws_def)
  from send_all_small [OF this, of ?ps ?s] obtain s' where s': "send_all (send_packet demo_ext) ?ps ?s = (Ok (), s')"
    by (auto simp: SshPacket_new_def)
  from packets_in_order [OF demo_link_laws this] obtain ws where ws: "wtr s' = wtr ?s @ ws"
    and r: "\<And>t rest. fits (sess ?s) (sess t) \<and> rdr t = ws @ rest \<Longrightarrow>
       \<exists>t'. recv_many (recv_packet demo_ext) (length ?ps) t = (Ok ?ps, t') \<and> rdr t' = rest" by blast
  from r [of "(demo_endpoint ws)\<lparr>sess := demo_session\<rparr>" "[]"] obtain t'
    where "recv_many (recv_packet demo_ext) (length ?ps) ((demo_endpoint ws)\<lparr>sess := demo_session\<rparr>) = (Ok ?ps, t')" "rdr t' = []"
    using demo_session_fits by (auto simp: demo_endpoint_def)
  with s' ws show ?thesis by (auto simp: demo_endpoint_def numeral_2_eq_2)
qed

text \<open>C6. A packet accepted under a MAC key was followed on the wire by the HMAC of its
  sequence number and its decrypted bytes, and it is what those bytes deserialize to; the
  next packet is checked with the next sequence number. A replayed, reordered or modified
  packet is therefore accepted only if its tag is the HMAC of what it is taken for.\<close>

theorem recv_packet_authenticated:
  assumes "reader_law X avail" and "stream_cipher X" and "mac_verifies X"
    and "recv_mac_key (sess t) = Some k" and "recv_packet X t = (Ok pkt, t')"
  shows "\<exists>used. avail (rdr t) =
             used @ compute_hmac X k (to_be_bytes_u32 (recv_seq (sess t)) @ fst (decrypt_data X used (sess t))) @
             avail (rdr t') \<and>
           deserialize (fst (decrypt_data X used (sess t))) = Ok pkt \<and>
           recv_seq (sess t') = recv_seq (sess t) + 1"
proof -
  from assms(1,5) obtain used data tag where "avail (rdr t) = used @ tag @ avail (rdr t')"
    and "deserialize data = Ok pkt" and "stream_cipher X \<Longrightarrow> data = fst (decrypt_data X used (sess t))"
    and "\<And>k. recv_mac_key (sess t) = Some k \<Longrightarrow>
           length tag = 32 \<and> hmac_verify_slice X k (to_be_bytes_u32 (recv_seq (sess t)) @ data) tag"
    and "recv_seq (sess t') = recv_seq (sess t) + 1"
    by (rule recv_packet_OkD) blast
  with assms(2-4) show ?thesis
    by (intro exI [of _ used]) (auto simp: compute_hmac_def mac_verifies_def)
qed

theorem recv_packet_authenticated_witness:
  "\<exists>t t' used. recv_packet demo_ext t = (Ok (SshPacket_new Ignore [1, 2]), t') \<and>
     rdr t = used @ compute_hmac demo_ext [1] (to_be_bytes_u32 0 @ fst (decrypt_data demo_ext used demo_session)) @ rdr t'"
proof -
  let ?s = "(demo_endpoint [])\<lparr>sess := demo_session\<rparr>" and ?p = "SshPacket_new Ignore [1, 2]"
  have laws: "reader_law demo_ext (\<lambda>r. r)" "stream_cipher demo_ext" "mac_verifies demo_ext" "writer_law demo_ext (\<lambda>w. w)"
    using demo_link_laws by (simp_all add: link_laws_def)
  from send_packet_small [OF laws(4), of ?p ?s] obtain s' where "send_packet demo_ext ?p ?s = (Ok (), s')"
    by (auto simp: SshPacket_new_def)
  from send_packet_deliver [OF demo_link_laws this] obtain ws
    where d: "\<And>t rest. fits (sess ?s) (sess t) \<and> rdr t = ws @ rest \<Longrightarrow> \<exists>t'. recv_packet demo_ext t = (Ok ?p, t')"
    by blast
  from d [of "(demo_endpoint ws)\<lparr>sess := demo_session\<rparr>" "[]"] obtain t'
    where r: "recv_packet demo_ext ((demo_endpoint ws)\<lparr>sess := demo_session\<rparr>) = (Ok ?p, t')"
    using demo_session_fits by (auto simp: demo_endpoint_def)
  let ?t = "(demo_endpoint ws)\<lparr>sess := demo_session\<rparr>"
  have "recv_mac_key (sess ?t) = Some [1]" by (simp add: demo_session_def)
  from recv_packet_authenticated [OF laws(1-3) this r] obtain used
    where "rdr ?t = used @ compute_hmac demo_ext [1] (to_be_bytes_u32 (recv_seq (sess ?t)) @ fst (decrypt_data demo_ext used (sess ?t))) @ rdr t'"
    by auto
  moreover have "recv_seq (sess ?t) = 0" "sess ?t = demo_session" by (simp_all add: demo_session_def SessionKeys_new_def)
  ultimately show ?thesis using r by (intro exI [of _ ?t] exI [of _ t'] exI [of _ used]) simp
qed

text \<open>Every packet received consumes at least one block of input, so a loop over the
  packets of a finite stream ends.\<close>

theorem recv_packet_consumes:
  assumes "reader_law X avail" and "recv_packet X t = (Ok pkt, t')"
  shows "\<exists>used. avail (rdr t) = used @ avail (rdr t') \<and> 8 \<le> length used"
proof -
  from assms obtain used tag where "avail (rdr t) = used @ tag @ avail (rdr t')"
    and "block_size (sess t) \<le> length used" by (rule recv_packet_OkD) blast
  moreover have "8 \<le> block_size (sess t)" by (simp add: block_size_def AES_BLOCK_SIZE_def)
  ultimately show ?thesis by (intro exI [of _ "used @ tag"]) simp
qed

theorem recv_packet_consumes_witness:
  "\<exists>t t' used. recv_packet demo_ext t = (Ok (SshPacket_new Ignore [1, 2]), t') \<and>
     rdr t = used @ rdr t' \<and> 8 \<le> length used"
proof -
  let ?s = "demo_endpoint []" and ?p = "SshPacket_new Ignore [1, 2]"
  have laws: "reader_law demo_ext (\<lambda>r. r)" "writer_law demo_ext (\<lambda>w. w)"
    using demo_link_laws by (simp_all add: link_laws_def)
  from send_packet_small [OF laws(2), of ?p ?s] obtain s' where "send_packet demo_ext ?p ?s = (Ok (), s')"
    by (auto simp: SshPacket_new_def)
  from send_packet_deliver [OF demo_link_laws this] obtain ws
    where d: "\<And>t rest. fits (sess ?s) (sess t) \<and> rdr t = ws @ rest \<Longrightarrow> \<exists>t'. recv_packet demo_ext t = (Ok ?p, t')"
    by blast
  from d [of "demo_endpoint ws" "[]"] obtain t' where r: "recv_packet demo_ext (demo_endpoint ws) = (Ok ?p, t')"
    using fits_new by (auto simp: demo_endpoint_def)
  from recv_packet_consumes [OF laws(1) r] r show ?thesis by blast
qed

text \<open>C28. Before encryption is active, eight bytes from the peer whose length field is less
  than four make \<open>recv_packet\<close> panic: the subtraction \<open>total - block_size\<close> underflows.\<close>

theorem recv_packet_short_panics:
  assumes "reader_law X avail" and "ciphers (sess t) = None"
    and "avail (rdr t) = to_be_bytes_u32 n @ junk" and "4 \<le> length junk" and "unat n < 4"
  shows "fst (recv_packet X t) = Panic"
proof -
  have "avail (rdr t) = (to_be_bytes_u32 n @ take 4 junk) @ drop 4 junk" using assms(3) by simp
  from read_bytes_Ok [OF assms(1) this, of 8] assms(4) obtain r
    where "read_bytes_or_closed X 8 t = (Ok (to_be_bytes_u32 n @ take 4 junk), t\<lparr>rdr := r\<rparr>)" by auto
  with assms(2,5) show ?thesis
    by (simp add: recv_packet_def block_size_def is_encrypted_def bind_st_def decrypt_data_def
        recv_rest_def lift_st_def MAX_PACKET_SIZE_def)
qed

theorem recv_packet_short_panics_witness:
  "fst (recv_packet demo_ext (demo_endpoint [0, 0, 0, 1, 0, 0, 0, 0])) = Panic"
proof (rule recv_packet_short_panics)
  show "reader_law demo_ext (\<lambda>r. r)" using demo_link_laws by (simp add: link_laws_def)
  show "ciphers (sess (demo_endpoint [0, 0, 0, 1, 0, 0, 0, 0])) = None"
    by (simp add: demo_endpoint_def SessionKeys_new_def)
  show "rdr (demo_endpoint [0, 0, 0, 1, 0, 0, 0, 0]) = to_be_bytes_u32 1 @ [0, 0, 0, 0]"
    by (simp add: demo_endpoint_def to_be_bytes_u32_eval)
qed simp_all

text \<open>C26. The version line one side sends is the version string the other side receives, and
  nothing behind the line is consumed.\<close>

theorem version_exchange:
  assumes "reader_law X avail" and "writer_law X sent" and "version_ok v"
    and "send_version_string X v s = (Ok (), s')"
    and "sent (wtr s') = sent (wtr s) @ line" and "avail (rdr t) = line @ rest"
  shows "\<exists>r. recv_version_string X t = (Ok v, t\<lparr>rdr := r\<rparr>) \<and> avail r = rest"
proof -
  from send_version_string_Ok [OF assms(2), of v s] assms(4,5) have "line = as_bytes v @ [0x0D, 0x0A]" by auto
  with recv_version_string_Ok [OF assms(1) _ assms(3)] assms(6) show ?thesis by simp
qed

theorem version_exchange_witness:
  "\<exists>r. recv_version_string demo_ext (demo_endpoint (as_bytes ''SSH-2.0-SwiftSSH_0.1'' @ [0x0D, 0x0A, 1, 2])) =
         (Ok SSH_VERSION_STRING, (demo_endpoint (as_bytes ''SSH-2.0-SwiftSSH_0.1'' @ [0x0D, 0x0A, 1, 2]))\<lparr>rdr := r\<rparr>) \<and>
       r = [1, 2]"
proof -
  let ?v = "''SSH-2.0-SwiftSSH_0.1''" and ?line = "as_bytes ''SSH-2.0-SwiftSSH_0.1'' @ [0x0D, 0x0A]"
  have laws: "reader_law demo_ext (\<lambda>r. r)" "writer_law demo_ext (\<lambda>w. w)"
    using demo_link_laws by (simp_all add: link_laws_def)
  have ascii: "ascii_str ?v" and lf: "0x0A \<notin> set (as_bytes ?v)" by code_simp+
  then have ok: "version_ok ?v" by (simp add: version_ok_def valid_str_ascii)
  from send_version_string_Ok [OF laws(2), of ?v "demo_endpoint []"] obtain w
    where "send_version_string demo_ext ?v (demo_endpoint []) = (Ok (), (demo_endpoint [])\<lparr>wtr := w\<rparr>)"
      and "w = wtr (demo_endpoint []) @ ?line" by auto
  from version_exchange [OF laws ok this(1), of ?line "demo_endpoint (?line @ [1, 2])" "[1, 2]"] this(2)
  show ?thesis by (simp add: demo_endpoint_def SSH_VERSION_STRING_def)
qed

text \<open>C27. An accepted version string was sent as a line of its own, is valid UTF-8 of at most
  253 bytes and announces protocol 2.0.\<close>

theorem recv_version_string_sound:
  assumes "reader_law X avail" and "recv_version_string X s = (Ok v, t)"
  shows "avail (rdr s) = as_bytes v @ [0x0D, 0x0A] @ avail (rdr t) \<and> valid_str v \<and>
         take 8 v = ''SSH-2.0-'' \<and> length v \<le> 253"
  using recv_version_string_OkD [OF assms] by simp

theorem recv_version_string_sound_witness:
  "\<exists>t. recv_version_string demo_ext (demo_endpoint (as_bytes ''SSH-2.0-x'' @ [0x0D, 0x0A])) = (Ok ''SSH-2.0-x'', t) \<and>
       rdr (demo_endpoint (as_bytes ''SSH-2.0-x'' @ [0x0D, 0x0A])) = as_bytes ''SSH-2.0-x'' @ [0x0D, 0x0A] @ rdr t"
proof -
  have law: "reader_law demo_ext (\<lambda>r. r)" using demo_link_laws by (simp add: link_laws_def)
  have ascii: "ascii_str ''SSH-2.0-x''" and lf: "0x0A \<notin> set (as_bytes ''SSH-2.0-x'')" by code_simp+
  then have "version_ok ''SSH-2.0-x''" by (simp add: version_ok_def valid_str_ascii)
  from recv_version_string_Ok [OF law _ this, of "demo_endpoint (as_bytes ''SSH-2.0-x'' @ [0x0D, 0x0A])" "[]"]
  obtain t where "recv_version_string demo_ext (demo_endpoint (as_bytes ''SSH-2.0-x'' @ [0x0D, 0x0A])) = (Ok ''SSH-2.0-x'', t)"
    by (auto simp: demo_endpoint_def)
  with recv_version_string_sound [OF law this] show ?thesis by auto
qed

end
