(* ===== verification/Kex.thy ===== *)
theory Kex
  imports Transport_IO
begin

text \<open>
  The Curve25519 key exchange of \<open>src/transport/kex.rs\<close>: the advertised algorithms, the
  ephemeral state of the two roles, the exchange hash and the KEXINIT payload.

  X25519 is the crate \<open>x25519_dalek\<close>, three operations of \<open>ext_ops\<close>; what the exchange
  relies on is \<open>dh_commutes\<close>. \<open>Option::take\<close> on the secret is written out: a completed
  exchange leaves \<open>None\<close>, and completing it again is an error.

  Shown here: both roles arrive at the same secret and the same exchange hash; an exchange
  can be completed once; and the exchange hash binds every field of the handshake, up to a
  collision of SHA-256, because the hashed transcript is an injective encoding.
\<close>

section \<open>Algorithms\<close>

definition KEX_ALGORITHMS :: "string list" where
  "KEX_ALGORITHMS = [''curve25519-sha256'']"

definition HOST_KEY_ALGORITHMS :: "string list" where
  "HOST_KEY_ALGORITHMS = [''ssh-ed25519'', ''rsa-sha2-256'']"

definition ENCRYPTION_ALGORITHMS :: "string list" where
  "ENCRYPTION_ALGORITHMS = [''aes256-ctr'', ''aes128-ctr'']"

definition MAC_ALGORITHMS :: "string list" where
  "MAC_ALGORITHMS = [''hmac-sha2-256'']"

definition COMPRESSION_ALGORITHMS :: "string list" where
  "COMPRESSION_ALGORITHMS = [''none'']"

lemmas algorithm_defs =
  KEX_ALGORITHMS_def HOST_KEY_ALGORITHMS_def ENCRYPTION_ALGORITHMS_def MAC_ALGORITHMS_def
  COMPRESSION_ALGORITHMS_def

section \<open>The exchange hash\<close>

record KexResult =
  shared_secret :: bytes
  exchange_hash :: bytes

text \<open>The bytes that are hashed.\<close>

definition exchange_transcript ::
  "string \<Rightarrow> string \<Rightarrow> bytes \<Rightarrow> bytes \<Rightarrow> bytes \<Rightarrow> array32 \<Rightarrow> array32 \<Rightarrow> bytes \<Rightarrow> bytes" where
  "exchange_transcript client_version server_version client_kexinit server_kexinit
     server_host_key_blob client_pub server_pub secret =
     (let buf = write_utf8 [] client_version;
          buf = write_utf8 buf server_version;
          buf = write_string buf client_kexinit;
          buf = write_string buf server_kexinit;
          buf = write_string buf server_host_key_blob;
          buf = write_string buf (arr32 client_pub);
          buf = write_string buf (arr32 server_pub)
      in write_mpint buf secret)"

definition compute_exchange_hash ::
  "('c, 'z) crypto_ops_scheme \<Rightarrow> string \<Rightarrow> string \<Rightarrow> bytes \<Rightarrow> bytes \<Rightarrow> bytes \<Rightarrow> array32 \<Rightarrow> array32 \<Rightarrow>
   bytes \<Rightarrow> bytes" where
  "compute_exchange_hash X client_version server_version client_kexinit server_kexinit
     server_host_key_blob client_pub server_pub secret =
     arr32 (sha256 X (exchange_transcript client_version server_version client_kexinit server_kexinit
       server_host_key_blob client_pub server_pub secret))"

section \<open>The client role\<close>

record KexClient =
  client_secret :: "array32 option"
  client_ephemeral_pub :: array32

definition KexClient_new :: "('c, 'r, 'w, 'g) ext_ops \<Rightarrow> 'g \<Rightarrow> KexClient \<times> 'g" where
  "KexClient_new X g =
     (let (secret, g) = random_secret X g;
          pub = x25519_public X secret
      in (\<lparr>client_secret = Some secret, client_ephemeral_pub = pub\<rparr>, g))"

definition KexClient_complete ::
  "('c, 'r, 'w, 'g) ext_ops \<Rightarrow> array32 \<Rightarrow> string \<Rightarrow> string \<Rightarrow> bytes \<Rightarrow> bytes \<Rightarrow> bytes \<Rightarrow>
   (KexClient, KexResult) stateful" where
  "KexClient_complete X server_pub client_version server_version client_kexinit server_kexinit
     server_host_key_blob self =
     (case client_secret self of
        None \<Rightarrow> (Err (KeyExchangeErr ''Key exchange already completed''), self)
      | Some secret \<Rightarrow>
          (let self = self\<lparr>client_secret := None\<rparr>;
               shared_bytes = arr32 (x25519_dh X secret server_pub);
               hash = compute_exchange_hash X client_version server_version client_kexinit
                 server_kexinit server_host_key_blob (client_ephemeral_pub self) server_pub shared_bytes
           in (Ok \<lparr>shared_secret = shared_bytes, exchange_hash = hash\<rparr>, self)))"

section \<open>The server role\<close>

record KexServer =
  server_secret :: "array32 option"
  server_ephemeral_pub :: array32

definition KexServer_new :: "('c, 'r, 'w, 'g) ext_ops \<Rightarrow> 'g \<Rightarrow> KexServer \<times> 'g" where
  "KexServer_new X g =
     (let (secret, g) = random_secret X g;
          pub = x25519_public X secret
      in (\<lparr>server_secret = Some secret, server_ephemeral_pub = pub\<rparr>, g))"

definition KexServer_complete ::
  "('c, 'r, 'w, 'g) ext_ops \<Rightarrow> array32 \<Rightarrow> string \<Rightarrow> string \<Rightarrow> bytes \<Rightarrow> bytes \<Rightarrow> bytes \<Rightarrow>
   (KexServer, KexResult) stateful" where
  "KexServer_complete X client_pub client_version server_version client_kexinit server_kexinit
     server_host_key_blob self =
     (case server_secret self of
        None \<Rightarrow> (Err (KeyExchangeErr ''Key exchange already completed''), self)
      | Some secret \<Rightarrow>
          (let self = self\<lparr>server_secret := None\<rparr>;
               shared_bytes = arr32 (x25519_dh X secret client_pub);
               hash = compute_exchange_hash X client_version server_version client_kexinit
                 server_kexinit server_host_key_blob client_pub (server_ephemeral_pub self) shared_bytes
           in (Ok \<lparr>shared_secret = shared_bytes, exchange_hash = hash\<rparr>, self)))"

section \<open>KEXINIT\<close>

definition build_kexinit_payload :: "('c, 'r, 'w, 'g) ext_ops \<Rightarrow> 'g \<Rightarrow> bytes \<times> 'g" where
  "build_kexinit_payload X g =
     (let (cookie, g) = fill_bytes X g 16;
          buf = [] @ cookie;
          buf = write_name_list buf KEX_ALGORITHMS;
          buf = write_name_list buf HOST_KEY_ALGORITHMS;
          buf = write_name_list buf ENCRYPTION_ALGORITHMS;
          buf = write_name_list buf ENCRYPTION_ALGORITHMS;
          buf = write_name_list buf MAC_ALGORITHMS;
          buf = write_name_list buf MAC_ALGORITHMS;
          buf = write_name_list buf COMPRESSION_ALGORITHMS;
          buf = write_name_list buf COMPRESSION_ALGORITHMS;
          buf = write_name_list buf [];
          buf = write_name_list buf [];
          buf = write_bool buf False;
          buf = write_u32 buf 0
      in (buf, g))"

section \<open>What the exchange relies on, and the shape of a completed exchange\<close>

definition dh_commutes :: "('c, 'r, 'w, 'g) ext_ops \<Rightarrow> bool" where
  "dh_commutes X \<longleftrightarrow> (\<forall>a b. x25519_dh X a (x25519_public X b) = x25519_dh X b (x25519_public X a))"

lemma KexClient_new_sel:
  assumes "KexClient_new X g = (c, g')"
  obtains a where "random_secret X g = (a, g')" and "client_secret c = Some a"
    and "client_ephemeral_pub c = x25519_public X a"
  using assms by (auto simp: KexClient_new_def Let_def split: prod.splits)

lemma KexServer_new_sel:
  assumes "KexServer_new X g = (s, g')"
  obtains b where "random_secret X g = (b, g')" and "server_secret s = Some b"
    and "server_ephemeral_pub s = x25519_public X b"
  using assms by (auto simp: KexServer_new_def Let_def split: prod.splits)

lemma kex_complete_agree:
  assumes dh: "dh_commutes X"
    and c: "client_secret c = Some a" "client_ephemeral_pub c = x25519_public X a"
    and s: "server_secret s = Some b" "server_ephemeral_pub s = x25519_public X b"
  shows "\<exists>r. KexClient_complete X (server_ephemeral_pub s) vc vs ic is hk c = (Ok r, c\<lparr>client_secret := None\<rparr>) \<and>
             KexServer_complete X (client_ephemeral_pub c) vc vs ic is hk s = (Ok r, s\<lparr>server_secret := None\<rparr>) \<and>
             r = \<lparr>shared_secret = arr32 (x25519_dh X a (x25519_public X b)),
                  exchange_hash = compute_exchange_hash X vc vs ic is hk (x25519_public X a) (x25519_public X b)
                    (arr32 (x25519_dh X a (x25519_public X b)))\<rparr>"
proof -
  have "x25519_dh X b (x25519_public X a) = x25519_dh X a (x25519_public X b)"
    using dh by (simp add: dh_commutes_def)
  with c s show ?thesis by (simp add: KexClient_complete_def KexServer_complete_def Let_def)
qed

section \<open>The transcript is an injective encoding\<close>

lemma mpint_as_string:
  "\<exists>m. write_mpint buf val = write_string buf m \<and> be_nat m = be_nat val \<and> length m \<le> length val + 1"
proof (cases "dropWhile (\<lambda>b. b = 0) val")
  case Nil
  then have "be_nat val = 0" using be_nat_dropWhile_0 [of val] by (simp only: be_nat_Nil)
  moreover have "write_mpint buf val = write_string buf [0]"
    unfolding write_mpint_def Let_def Nil by (simp add: write_append)
  ultimately show ?thesis by (intro exI [of _ "[0]"]) simp
next
  case (Cons x xs)
  have v: "be_nat (x # xs) = be_nat val" using be_nat_dropWhile_0 [of val] Cons by simp
  have len: "length (x # xs) \<le> length val" using length_dropWhile_le [of "\<lambda>b. b = 0" val] Cons by simp
  have "write_mpint buf val = write_string buf (if x AND 0x80 \<noteq> 0 then 0 # x # xs else x # xs)"
    using Cons by (simp add: write_mpint_def write_append Let_def)
  with v len show ?thesis
    by (intro exI [of _ "if x AND 0x80 \<noteq> 0 then 0 # x # xs else x # xs"]) simp
qed

lemma be_nat_inject: "length a = length b \<Longrightarrow> be_nat a = be_nat b \<Longrightarrow> a = b"
  by (metis be_bytes_be_nat)

lemma mpint_inject:
  assumes "write_mpint [] a = write_mpint [] b" and "length a = length b" and "length a < MAX_PACKET_SIZE"
  shows "a = b"
proof -
  obtain m where m: "write_mpint [] a = write_string [] m" "be_nat m = be_nat a" "length m \<le> length a + 1"
    using mpint_as_string by blast
  obtain n where n: "write_mpint [] b = write_string [] n" "be_nat n = be_nat b" "length n \<le> length b + 1"
    using mpint_as_string by blast
  have "m = n"
    using blob_item.wr_unique [of m n "[]" "[]"] m n assms by (simp add: blob_ok_def)
  with m n assms(2) show ?thesis by (intro be_nat_inject) simp_all
qed

lemma mpint_append: "write_mpint buf val = buf @ write_mpint [] val"
  by (simp add: write_mpint_def Let_def)

lemma exchange_transcript_eq:
  "exchange_transcript vc vs ic is hk e f k =
     enc_utf8 vc @ enc_utf8 vs @ enc_blob ic @ enc_blob is @ enc_blob hk @ enc_blob (arr32 e) @
     enc_blob (arr32 f) @ write_mpint [] k"
  unfolding exchange_transcript_def Let_def
  by (subst mpint_append) (simp add: wire_simps)

lemma enc_unique:
  "str_ok s \<Longrightarrow> str_ok t \<Longrightarrow> enc_utf8 s @ x = enc_utf8 t @ y \<longleftrightarrow> s = t \<and> x = y"
  "blob_ok d \<Longrightarrow> blob_ok e \<Longrightarrow> enc_blob d @ x = enc_blob e @ y \<longleftrightarrow> d = e \<and> x = y"
  "blob_ok d \<Longrightarrow> blob_ok e \<Longrightarrow> enc_blob d = enc_blob e \<longleftrightarrow> d = e"
  unfolding enc_utf8_def enc_blob_def
  by (fact utf8_item.wr_unique_iff blob_item.wr_unique_iff blob_item.wr_unique_iff [where x = "[]" and y = "[]", simplified])+

lemma blob_ok_arr32 [simp]: "blob_ok (arr32 a)"
  by (simp add: blob_ok_def MAX_PACKET_SIZE_def)

lemma exchange_transcript_inject:
  assumes "list_all str_ok [vc, vs, vc', vs']" and "list_all blob_ok [ic, is, hk, ic', is', hk']"
    and "length k = 32" and "length k' = 32"
    and "exchange_transcript vc vs ic is hk e f k = exchange_transcript vc' vs' ic' is' hk' e' f' k'"
  shows "vc = vc' \<and> vs = vs' \<and> ic = ic' \<and> is = is' \<and> hk = hk' \<and> e = e' \<and> f = f' \<and> k = k'"
  using assms mpint_inject [of k k'] by (auto simp: exchange_transcript_eq enc_unique MAX_PACKET_SIZE_def)

section \<open>Reading a KEXINIT payload\<close>

text \<open>The layout of RFC 4253, section 7.1, behind the cookie.\<close>

fun read_lists :: "nat \<Rightarrow> cursor \<Rightarrow> (string list list \<times> cursor) outcome" where
  "read_lists 0 c = Ok ([], c)"
| "read_lists (Suc n) c =
     and_then (read_name_list c) (\<lambda>(ns, c). and_then (read_lists n c) (\<lambda>(nss, c). Ok (ns # nss, c)))"

definition read_kexinit :: "bytes \<Rightarrow> (string list list \<times> bool \<times> u32 \<times> cursor) outcome" where
  "read_kexinit p =
     and_then (ok_or (cur_read_exact 16 (cursor_new p)) (Io UnexpectedEof)) (\<lambda>(cookie, c).
     and_then (read_lists 10 c) (\<lambda>(nss, c).
     and_then (read_bool c) (\<lambda>(follows, c).
     and_then (read_u32 c) (\<lambda>(reserved, c). Ok (nss, follows, reserved, c)))))"

lemma read_lists_Ok:
  assumes "list_all names_ok nss" and "cur_rest c = concat (map enc_names nss) @ rest"
  shows "\<exists>c'. read_lists (length nss) c = Ok (nss, c') \<and> cur_rest c' = rest"
  using assms
proof (induction nss arbitrary: c)
  case (Cons ns nss)
  let ?c = "cur_adv (length (enc_names ns)) c"
  have "cur_rest ?c = concat (map enc_names nss) @ rest" using Cons.prems(2) by simp
  from Cons.IH [OF _ this] Cons.prems(1) obtain c' where "read_lists (length nss) ?c = Ok (nss, c')" "cur_rest c' = rest"
    by auto
  moreover have "read_name_list c = Ok (ns, ?c)" using Cons.prems by (simp add: read_enc)
  ultimately show ?case by simp
qed simp

lemma algorithms_ok:
  "names_ok KEX_ALGORITHMS" "names_ok HOST_KEY_ALGORITHMS" "names_ok ENCRYPTION_ALGORITHMS"
  "names_ok MAC_ALGORITHMS" "names_ok COMPRESSION_ALGORITHMS" "names_ok []"
proof -
  have "ascii_str ''curve25519-sha256''" "ascii_str ''ssh-ed25519,rsa-sha2-256''" "ascii_str ''aes256-ctr,aes128-ctr''"
    "ascii_str ''hmac-sha2-256''" "ascii_str ''none''" by code_simp+
  then show "names_ok KEX_ALGORITHMS" "names_ok HOST_KEY_ALGORITHMS" "names_ok ENCRYPTION_ALGORITHMS"
    "names_ok MAC_ALGORITHMS" "names_ok COMPRESSION_ALGORITHMS" "names_ok []"
    by (simp_all add: names_ok_def str_ok_def valid_str_ascii algorithm_defs MAX_PACKET_SIZE_def)
qed

definition advertised :: "string list list" where
  "advertised =
     [KEX_ALGORITHMS, HOST_KEY_ALGORITHMS, ENCRYPTION_ALGORITHMS, ENCRYPTION_ALGORITHMS,
      MAC_ALGORITHMS, MAC_ALGORITHMS, COMPRESSION_ALGORITHMS, COMPRESSION_ALGORITHMS, [], []]"

lemma kexinit_bytes:
  "build_kexinit_payload X g =
     (fst (fill_bytes X g 16) @ concat (map enc_names advertised) @ enc_bool False @ to_be_bytes_u32 0,
      snd (fill_bytes X g 16))"
  by (simp add: build_kexinit_payload_def wire_simps advertised_def split_beta Let_def)

lemma length_enc_names: "length (enc_names ns) = 4 + length (join_with '','' ns)"
  by (simp add: enc_names_def write_name_list_def)

lemma length_kexinit:
  assumes "fills (fill_bytes X)"
  shows "length (fst (build_kexinit_payload X g)) = 178"
  using assms
  by (simp add: kexinit_bytes advertised_def length_enc_names algorithm_defs fills_def)

section \<open>Properties of the key exchange\<close>

lemma demo_dh_commutes: "dh_commutes demo_ext"
  by (simp add: dh_commutes_def demo_ext_def crypto_ops.defs)

text \<open>C16. The client and the server that exchanged their ephemeral public keys and saw the same
  versions, KEXINIT payloads and host key obtain the same shared secret and the same exchange
  hash, whatever random secrets they drew.\<close>

theorem kex_agreement:
  assumes "dh_commutes X" and "KexClient_new X g = (c, g')" and "KexServer_new X h = (s, h')"
  shows "\<exists>r. KexClient_complete X (server_ephemeral_pub s) vc vs ic is hk c = (Ok r, c\<lparr>client_secret := None\<rparr>) \<and>
             KexServer_complete X (client_ephemeral_pub c) vc vs ic is hk s = (Ok r, s\<lparr>server_secret := None\<rparr>)"
proof -
  from assms(2) obtain a where "client_secret c = Some a" "client_ephemeral_pub c = x25519_public X a"
    by (rule KexClient_new_sel)
  moreover from assms(3) obtain b where "server_secret s = Some b" "server_ephemeral_pub s = x25519_public X b"
    by (rule KexServer_new_sel)
  ultimately show ?thesis using kex_complete_agree [OF assms(1)] by blast
qed

theorem kex_agreement_witness:
  "\<exists>c s r. KexClient_new demo_ext () = (c, ()) \<and> KexServer_new demo_ext () = (s, ()) \<and>
     KexClient_complete demo_ext (server_ephemeral_pub s) ''a'' ''b'' [1] [2] [3] c = (Ok r, c\<lparr>client_secret := None\<rparr>) \<and>
     KexServer_complete demo_ext (client_ephemeral_pub c) ''a'' ''b'' [1] [2] [3] s = (Ok r, s\<lparr>server_secret := None\<rparr>)"
proof -
  have "KexClient_new demo_ext () = (\<lparr>client_secret = Some 7, client_ephemeral_pub = 63\<rparr>, ())"
    and "KexServer_new demo_ext () = (\<lparr>server_secret = Some 7, server_ephemeral_pub = 63\<rparr>, ())"
    by (simp_all add: KexClient_new_def KexServer_new_def demo_ext_def crypto_ops.defs)
  with kex_agreement [OF demo_dh_commutes this] show ?thesis by blast
qed

text \<open>The ephemeral secret is used once: after a completed exchange every further attempt is
  an error, with any arguments, on either side.\<close>

theorem kex_completes_once:
  assumes "KexClient_complete X sp vc vs ic is hk c = (Ok r, c')"
    and "KexServer_complete X cp vc vs ic is hk s = (Ok q, s')"
  shows "KexClient_complete X sp' vc' vs' ic' is' hk' c' =
           (Err (KeyExchangeErr ''Key exchange already completed''), c') \<and>
         KexServer_complete X cp' vc' vs' ic' is' hk' s' =
           (Err (KeyExchangeErr ''Key exchange already completed''), s')"
  using assms by (auto simp: KexClient_complete_def KexServer_complete_def Let_def split: option.splits)

theorem kex_completes_once_witness:
  "KexClient_complete demo_ext 5 ''a'' ''b'' [] [] [] \<lparr>client_secret = None, client_ephemeral_pub = 63\<rparr> =
     (Err (KeyExchangeErr ''Key exchange already completed''), \<lparr>client_secret = None, client_ephemeral_pub = 63\<rparr>)"
proof -
  let ?c = "\<lparr>client_secret = Some 7, client_ephemeral_pub = 63\<rparr>" and ?s = "\<lparr>server_secret = Some 7, server_ephemeral_pub = 63\<rparr>"
  obtain r where r: "KexClient_complete demo_ext 1 ''a'' ''b'' [1] [2] [3] ?c = (Ok r, \<lparr>client_secret = None, client_ephemeral_pub = 63\<rparr>)"
    by (simp add: KexClient_complete_def Let_def)
  obtain q where q: "KexServer_complete demo_ext 1 ''a'' ''b'' [1] [2] [3] ?s = (Ok q, \<lparr>server_secret = None, server_ephemeral_pub = 63\<rparr>)"
    by (simp add: KexServer_complete_def Let_def)
  show ?thesis by (rule kex_completes_once [OF r q, THEN conjunct1])
qed

text \<open>C17. The exchange hash binds the handshake: if two exchanges with fields within the
  protocol's limits have the same hash, then they agree in both versions, both KEXINIT payloads,
  the host key, both ephemeral keys and the secret, or the two transcripts that were hashed differ
  and are themselves a collision of SHA-256. No field can be moved into its neighbour.\<close>

theorem exchange_hash_binds:
  assumes "list_all str_ok [vc, vs, vc', vs']" and "list_all blob_ok [ic, is, hk, ic', is', hk']"
    and "length k = 32" and "length k' = 32"
    and "compute_exchange_hash X vc vs ic is hk e f k = compute_exchange_hash X vc' vs' ic' is' hk' e' f' k'"
  shows "(vc, vs, ic, is, hk, e, f, k) = (vc', vs', ic', is', hk', e', f', k') \<or>
         exchange_transcript vc vs ic is hk e f k \<noteq> exchange_transcript vc' vs' ic' is' hk' e' f' k' \<and>
         sha256 X (exchange_transcript vc vs ic is hk e f k) = sha256 X (exchange_transcript vc' vs' ic' is' hk' e' f' k')"
proof (cases "exchange_transcript vc vs ic is hk e f k = exchange_transcript vc' vs' ic' is' hk' e' f' k'")
  case True
  with exchange_transcript_inject [OF assms(1-4)] show ?thesis by blast
next
  case False
  with assms(5) show ?thesis by (auto simp: compute_exchange_hash_def)
qed

theorem exchange_hash_binds_witness:
  "exchange_transcript ''ab'' ''c'' [1] [2] [3] 4 5 (arr32 6) \<noteq> exchange_transcript ''a'' ''bc'' [1] [2] [3] 4 5 (arr32 6)"
proof -
  have "list_all ascii_str [''ab'', ''c'', ''a'', ''bc'']" by code_simp
  then have strs: "list_all str_ok [''ab'', ''c'', ''a'', ''bc'']"
    by (simp add: str_ok_def valid_str_ascii MAX_PACKET_SIZE_def)
  have blobs: "list_all blob_ok [[1], [2], [3], [1], [2], [3]]" by (simp add: blob_ok_def MAX_PACKET_SIZE_def)
  have same: "compute_exchange_hash (demo_ext\<lparr>sha256 := \<lambda>_. 0\<rparr>) ''ab'' ''c'' [1] [2] [3] 4 5 (arr32 6) =
      compute_exchange_hash (demo_ext\<lparr>sha256 := \<lambda>_. 0\<rparr>) ''a'' ''bc'' [1] [2] [3] 4 5 (arr32 6)"
    by (simp add: compute_exchange_hash_def)
  show ?thesis using exchange_hash_binds [OF strs blobs length_arr32 length_arr32 same] by simp
qed

text \<open>The KEXINIT payload has the layout of RFC 4253, section 7.1: behind a cookie of
  sixteen random bytes the ten lists of the advertised algorithms, no guessed packet, the
  reserved zero, and nothing else.\<close>

theorem kexinit_layout:
  assumes "fills (fill_bytes X)"
  shows "\<exists>c. read_kexinit (fst (build_kexinit_payload X g)) =
           Ok ([[''curve25519-sha256''], [''ssh-ed25519'', ''rsa-sha2-256''],
                [''aes256-ctr'', ''aes128-ctr''], [''aes256-ctr'', ''aes128-ctr''],
                [''hmac-sha2-256''], [''hmac-sha2-256''], [''none''], [''none''], [], []], False, 0, c) \<and>
             cur_rest c = []"
proof -
  let ?p = "fst (build_kexinit_payload X g)" and ?rest = "enc_bool False @ to_be_bytes_u32 0"
  let ?c = "cur_adv 16 (cursor_new ?p)"
  have len: "length (fst (fill_bytes X g 16)) = 16" using assms by (simp add: fills_def)
  then have c: "cur_rest ?c = concat (map enc_names advertised) @ ?rest"
    and cookie: "cur_read_exact 16 (cursor_new ?p) = Some (fst (fill_bytes X g 16), ?c)"
    by (simp_all add: kexinit_bytes cur_read_exact_def)
  have "list_all names_ok advertised" by (simp add: advertised_def algorithms_ok)
  moreover have "length advertised = 10" by (simp add: advertised_def)
  ultimately obtain c' where "read_lists 10 ?c = Ok (advertised, c')" "cur_rest c' = ?rest"
    using read_lists_Ok [OF _ c] by auto
  then have "read_kexinit ?p = Ok (advertised, False, 0, cur_adv 5 c') \<and> cur_rest (cur_adv 5 c') = []"
    by (simp add: read_kexinit_def cookie wire_reads)
  then show ?thesis unfolding advertised_def algorithm_defs by blast
qed

theorem kexinit_layout_witness:
  "\<exists>c. read_kexinit (fst (build_kexinit_payload demo_ext ())) =
     Ok ([[''curve25519-sha256''], [''ssh-ed25519'', ''rsa-sha2-256''],
          [''aes256-ctr'', ''aes128-ctr''], [''aes256-ctr'', ''aes128-ctr''],
          [''hmac-sha2-256''], [''hmac-sha2-256''], [''none''], [''none''], [], []], False, 0, c) \<and>
     cur_rest c = []"
  by (rule kexinit_layout) (use demo_link_laws in \<open>simp add: link_laws_def\<close>)

end
