(* ===== verification/Auth.thy ===== *)
theory Auth
  imports Kex
begin

text \<open>
  User authentication of \<open>src/auth/mod.rs\<close>: the user database, the messages of RFC 4252 and
  the parser of authentication requests. A \<open>HashMap\<close> that is only searched is a map.

  Shown here: the parser returns what the builders wrote and accepts nothing else, an unknown
  method is an error, and the database answers exactly according to the history of additions.
\<close>

section \<open>Credentials and the user database\<close>

datatype Credential =
    Password string
  | PublicKey (algorithm: string) (key_blob: bytes) (signature: "bytes option")

record UserDatabase =
  passwords :: "string \<rightharpoonup> string"
  public_keys :: "string \<rightharpoonup> bytes list"

definition UserDatabase_new :: UserDatabase where
  "UserDatabase_new = \<lparr>passwords = Map.empty, public_keys = Map.empty\<rparr>"

definition add_password_user :: "string \<Rightarrow> string \<Rightarrow> UserDatabase \<Rightarrow> UserDatabase" where
  "add_password_user username password db = db\<lparr>passwords := (passwords db)(username \<mapsto> password)\<rparr>"

text \<open>\<open>entry(\<dots>).or_default().push(\<dots>)\<close>.\<close>

definition add_public_key :: "string \<Rightarrow> bytes \<Rightarrow> UserDatabase \<Rightarrow> UserDatabase" where
  "add_public_key username blob db =
     (let keys = (case public_keys db username of None \<Rightarrow> [] | Some ks \<Rightarrow> ks)
      in db\<lparr>public_keys := (public_keys db)(username \<mapsto> keys @ [blob])\<rparr>)"

definition verify_password :: "UserDatabase \<Rightarrow> string \<Rightarrow> string \<Rightarrow> bool" where
  "verify_password db username password =
     (case passwords db username of None \<Rightarrow> False | Some p \<Rightarrow> p = password)"

definition is_key_authorized :: "UserDatabase \<Rightarrow> string \<Rightarrow> bytes \<Rightarrow> bool" where
  "is_key_authorized db username blob =
     (case public_keys db username of None \<Rightarrow> False | Some ks \<Rightarrow> list_ex (\<lambda>k. k = blob) ks)"

section \<open>Messages\<close>

definition build_password_auth_request :: "string \<Rightarrow> string \<Rightarrow> string \<Rightarrow> SshPacket" where
  "build_password_auth_request username service password =
     (let buf = write_utf8 [] username;
          buf = write_utf8 buf service;
          buf = write_utf8 buf ''password'';
          buf = write_bool buf False;
          buf = write_utf8 buf password
      in SshPacket_new UserAuthRequest buf)"

definition build_pubkey_auth_request ::
  "string \<Rightarrow> string \<Rightarrow> string \<Rightarrow> bytes \<Rightarrow> bytes option \<Rightarrow> SshPacket" where
  "build_pubkey_auth_request username service alg blob sig =
     (let buf = write_utf8 [] username;
          buf = write_utf8 buf service;
          buf = write_utf8 buf ''publickey'';
          buf = write_bool buf (sig \<noteq> None);
          buf = write_utf8 buf alg;
          buf = write_string buf blob;
          buf = (case sig of Some sig \<Rightarrow> write_string buf sig | None \<Rightarrow> buf)
      in SshPacket_new UserAuthRequest buf)"

definition build_auth_failure :: "string list \<Rightarrow> bool \<Rightarrow> SshPacket" where
  "build_auth_failure methods partial_success =
     (let buf = write_name_list [] methods;
          buf = write_bool buf partial_success
      in SshPacket_new UserAuthFailure buf)"

definition build_auth_success :: SshPacket where
  "build_auth_success = SshPacket_new UserAuthSuccess []"

definition build_service_request :: "string \<Rightarrow> SshPacket" where
  "build_service_request service_name = SshPacket_new ServiceRequest (write_utf8 [] service_name)"

definition build_service_accept :: "string \<Rightarrow> SshPacket" where
  "build_service_accept service_name = SshPacket_new ServiceAccept (write_utf8 [] service_name)"

record AuthRequest =
  username :: string
  service :: string
  auth_method :: string
  credential :: Credential

definition AuthRequest_parse :: "bytes \<Rightarrow> AuthRequest outcome" where
  "AuthRequest_parse data =
     and_then (read_utf8 (cursor_new data)) (\<lambda>(user, c).
     and_then (read_utf8 c) (\<lambda>(svc, c).
     and_then (read_utf8 c) (\<lambda>(meth, c).
     and_then
       (if meth = ''password'' then
          and_then (read_bool c) (\<lambda>(change, c).
          and_then (read_utf8 c) (\<lambda>(password, c).
            Ok (Password password)))
        else if meth = ''publickey'' then
          and_then (read_bool c) (\<lambda>(has_sig, c).
          and_then (read_utf8 c) (\<lambda>(alg, c).
          and_then (read_string c) (\<lambda>(blob, c).
          and_then (if has_sig then and_then (read_string c) (\<lambda>(sig, c). Ok (Some sig)) else Ok None) (\<lambda>sig.
            Ok (PublicKey alg blob sig)))))
        else Err (AuthFailed (''Unsupported auth method: '' @ meth)))
       (\<lambda>cred. Ok \<lparr>username = user, service = svc, auth_method = meth, credential = cred\<rparr>))))"

section \<open>Requests on the wire\<close>

text \<open>Which fields of a credential a reader accepts, and what follows the method name.\<close>

fun credential_ok :: "Credential \<Rightarrow> bool" where
  "credential_ok (Password p) = str_ok p"
| "credential_ok (PublicKey alg blob sig) = (str_ok alg \<and> blob_ok blob \<and> pred_option blob_ok sig)"

fun method_name :: "Credential \<Rightarrow> string" where
  "method_name (Password p) = ''password''"
| "method_name (PublicKey alg blob sig) = ''publickey''"

definition enc_flag :: "u8 \<Rightarrow> bytes" where
  "enc_flag b = [b]"

fun credential_body :: "u8 \<Rightarrow> Credential \<Rightarrow> bytes" where
  "credential_body flag (Password p) = enc_flag flag @ enc_utf8 p"
| "credential_body flag (PublicKey alg blob sig) =
     enc_flag flag @ enc_utf8 alg @ enc_blob blob @ (case sig of None \<Rightarrow> [] | Some s \<Rightarrow> enc_blob s)"

fun flag_fits :: "u8 \<Rightarrow> Credential \<Rightarrow> bool" where
  "flag_fits flag (Password p) = True"
| "flag_fits flag (PublicKey alg blob sig) = ((flag \<noteq> 0) = (sig \<noteq> None))"

lemma method_names_ok: "str_ok ''password''" "str_ok ''publickey''"
proof -
  have "ascii_str ''password''" "ascii_str ''publickey''" by code_simp+
  then show "str_ok ''password''" "str_ok ''publickey''"
    by (simp_all add: str_ok_def valid_str_ascii MAX_PACKET_SIZE_def)
qed

lemma length_enc_flag [simp]: "length (enc_flag b) = 1"
  by (simp add: enc_flag_def)

lemma enc_bool_flag: "enc_bool t = enc_flag (if t then 1 else 0)"
  by (simp add: enc_bool_def write_bool_def enc_flag_def)

lemma read_bool_at: "cur_rest c = enc_flag b @ rest \<Longrightarrow> read_bool c = Ok (b \<noteq> 0, cur_adv 1 c)"
  by (simp add: read_bool_def cur_read_u8_at enc_flag_def)

lemma read_bool_OkD:
  assumes "read_bool c = Ok (t, c')"
  obtains b where "cur_rest c = enc_flag b @ cur_rest c'" and "t = (b \<noteq> 0)"
proof (cases "cur_rest c")
  case Nil
  with assms show ?thesis by (simp add: read_bool_def cur_read_u8_def cur_read_exact_def)
next
  case (Cons b bs)
  with assms that [of b] show ?thesis by (auto simp: read_bool_def cur_read_u8_at enc_flag_def)
qed

lemma read_string_consumed:
  "read_string c = Ok (d, c') \<Longrightarrow> blob_ok d \<and> cur_rest c = enc_blob d @ cur_rest c'"
  by (intro conjI read_string_OkD(1,2))

lemma parse_request_bytes:
  assumes "str_ok u" and "str_ok svc" and "credential_ok cred" and "flag_fits flag cred"
  shows "AuthRequest_parse (enc_utf8 u @ enc_utf8 svc @ enc_utf8 (method_name cred) @ credential_body flag cred @ rest) =
           Ok \<lparr>username = u, service = svc, auth_method = method_name cred, credential = cred\<rparr>"
proof (cases cred)
  case (Password p)
  with assms show ?thesis
    by (simp add: AuthRequest_parse_def wire_reads read_bool_at method_names_ok)
next
  case (PublicKey alg blob sig)
  with assms show ?thesis
    by (cases sig) (simp_all add: AuthRequest_parse_def wire_reads read_bool_at method_names_ok)
qed

lemma parse_request_OkD:
  assumes "AuthRequest_parse data = Ok req"
  shows "str_ok (username req) \<and> str_ok (service req) \<and> auth_method req = method_name (credential req) \<and>
         credential_ok (credential req) \<and>
         (\<exists>flag rest. flag_fits flag (credential req) \<and>
            data = enc_utf8 (username req) @ enc_utf8 (service req) @ enc_utf8 (auth_method req) @
                   credential_body flag (credential req) @ rest)"
proof -
  from assms obtain u svc m c1 c2 c3 cred
    where r1: "read_utf8 (cursor_new data) = Ok (u, c1)" and r2: "read_utf8 c1 = Ok (svc, c2)"
    and r3: "read_utf8 c2 = Ok (m, c3)"
    and body: "(if m = ''password'' then
          and_then (read_bool c3) (\<lambda>(change, c). and_then (read_utf8 c) (\<lambda>(password, c). Ok (Password password)))
        else if m = ''publickey'' then
          and_then (read_bool c3) (\<lambda>(has_sig, c). and_then (read_utf8 c) (\<lambda>(alg, c).
          and_then (read_string c) (\<lambda>(blob, c).
          and_then (if has_sig then and_then (read_string c) (\<lambda>(sig, c). Ok (Some sig)) else Ok None) (\<lambda>sig.
            Ok (PublicKey alg blob sig)))))
        else Err (AuthFailed (''Unsupported auth method: '' @ m))) = Ok cred"
    and req: "req = \<lparr>username = u, service = svc, auth_method = m, credential = cred\<rparr>"
    unfolding AuthRequest_parse_def by auto
  have head: "data = enc_utf8 u @ enc_utf8 svc @ enc_utf8 m @ cur_rest c3"
    using read_utf8_OkD(1) [OF r1] read_utf8_OkD(1) [OF r2] read_utf8_OkD(1) [OF r3] by simp
  have "m = method_name cred \<and> credential_ok cred \<and>
        (\<exists>flag rest. flag_fits flag cred \<and> cur_rest c3 = credential_body flag cred @ rest)"
  proof (cases "m = ''password''")
    case True
    with body obtain t c4 p c5 where b: "read_bool c3 = Ok (t, c4)" and p: "read_utf8 c4 = Ok (p, c5)" and "cred = Password p"
      by auto
    from b obtain f where "cur_rest c3 = enc_flag f @ cur_rest c4" by (rule read_bool_OkD)
    with True \<open>cred = Password p\<close> read_utf8_OkD(1,2) [OF p] show ?thesis by auto
  next
    case False
    with body obtain t c4 alg c5 blob c6 sig where m: "m = ''publickey''" and b: "read_bool c3 = Ok (t, c4)"
      and a: "read_utf8 c4 = Ok (alg, c5)" and k: "read_string c5 = Ok (blob, c6)"
      and s: "(if t then and_then (read_string c6) (\<lambda>(sig, c). Ok (Some sig)) else Ok None) = Ok sig"
      and cred: "cred = PublicKey alg blob sig"
      by (auto split: if_splits)
    from b obtain f where f: "cur_rest c3 = enc_flag f @ cur_rest c4" "t = (f \<noteq> 0)" by (rule read_bool_OkD)
    obtain rest where "pred_option blob_ok sig " "(sig \<noteq> None) = t"
      "cur_rest c6 = (case sig of None \<Rightarrow> [] | Some x \<Rightarrow> enc_blob x) @ rest"
      using s by (cases t) (auto dest: read_string_consumed)
    with m cred f read_utf8_OkD(1,2) [OF a] read_string_OkD(1,2) [OF k]
    have "cur_rest c3 = credential_body f cred @ rest" "flag_fits f cred" "m = method_name cred" "credential_ok cred"
      by simp_all
    then show ?thesis by blast
  qed
  with head req read_utf8_OkD(2) [OF r1] read_utf8_OkD(2) [OF r2] show ?thesis by auto
qed

section \<open>The database as the history of additions\<close>

datatype db_op = AddPassword string string | AddKey string bytes

fun db_apply :: "db_op \<Rightarrow> UserDatabase \<Rightarrow> UserDatabase" where
  "db_apply (AddPassword u p) = add_password_user u p"
| "db_apply (AddKey u k) = add_public_key u k"

definition db_of :: "db_op list \<Rightarrow> UserDatabase" where
  "db_of ops = fold db_apply ops UserDatabase_new"

fun current_password :: "db_op list \<Rightarrow> string \<Rightarrow> string option" where
  "current_password [] u = None"
| "current_password (AddPassword v p # ops) u =
     (case current_password ops u of Some q \<Rightarrow> Some q | None \<Rightarrow> if v = u then Some p else None)"
| "current_password (AddKey v k # ops) u = current_password ops u"

lemma passwords_fold:
  "passwords (fold db_apply ops db) u =
     (case current_password ops u of Some q \<Rightarrow> Some q | None \<Rightarrow> passwords db u)"
  by (induction ops u arbitrary: db rule: current_password.induct)
     (auto simp: add_password_user_def add_public_key_def Let_def split: option.splits)

lemma public_keys_fold:
  "k \<in> (case public_keys (fold db_apply ops db) u of None \<Rightarrow> {} | Some ks \<Rightarrow> set ks) \<longleftrightarrow>
   AddKey u k \<in> set ops \<or> k \<in> (case public_keys db u of None \<Rightarrow> {} | Some ks \<Rightarrow> set ks)"
proof (induction ops arbitrary: db)
  case (Cons op ops)
  have "k \<in> (case public_keys (db_apply op db) u of None \<Rightarrow> {} | Some ks \<Rightarrow> set ks) \<longleftrightarrow>
        op = AddKey u k \<or> k \<in> (case public_keys db u of None \<Rightarrow> {} | Some ks \<Rightarrow> set ks)"
    by (cases op) (auto simp: add_password_user_def add_public_key_def Let_def split: option.splits)
  with Cons [of "db_apply op db"] show ?case by auto
qed simp

lemma is_key_authorized_set:
  "is_key_authorized db u k \<longleftrightarrow> k \<in> (case public_keys db u of None \<Rightarrow> {} | Some ks \<Rightarrow> set ks)"
  by (auto simp: is_key_authorized_def list_ex_iff split: option.splits)

lemma parse_password_request:
  assumes "str_ok u" and "str_ok svc" and "str_ok p"
  shows "msg_type (build_password_auth_request u svc p) = msg_u8 UserAuthRequest \<and>
         AuthRequest_parse (payload (build_password_auth_request u svc p)) =
           Ok \<lparr>username = u, service = svc, auth_method = ''password'', credential = Password p\<rparr>"
  using assms parse_request_bytes [of u svc "Password p" 0 "[]"]
  by (simp add: build_password_auth_request_def wire_simps SshPacket_new_def enc_bool_flag)

section \<open>Properties of user authentication\<close>

text \<open>A password request is parsed back to the user, service and password it was built from.\<close>

theorem password_request_roundtrip:
  assumes "str_ok u" and "str_ok svc" and "str_ok p"
  shows "msg_type (build_password_auth_request u svc p) = msg_u8 UserAuthRequest \<and>
         AuthRequest_parse (payload (build_password_auth_request u svc p)) =
           Ok \<lparr>username = u, service = svc, auth_method = ''password'', credential = Password p\<rparr>"
  using assms by (rule parse_password_request)

theorem password_request_roundtrip_witness:
  "AuthRequest_parse (payload (build_password_auth_request ''alice'' ''ssh-connection'' ''mypass'')) =
     Ok \<lparr>username = ''alice'', service = ''ssh-connection'', auth_method = ''password'', credential = Password ''mypass''\<rparr>"
proof -
  have "ascii_str ''alice''" "ascii_str ''ssh-connection''" "ascii_str ''mypass''" by code_simp+
  then have "str_ok ''alice''" "str_ok ''ssh-connection''" "str_ok ''mypass''"
    by (simp_all add: str_ok_def valid_str_ascii MAX_PACKET_SIZE_def)
  from password_request_roundtrip [OF this] show ?thesis by (rule conjunct2)
qed

text \<open>A public key request is parsed back with its algorithm, key and signature, and a
  request without a signature is parsed as one.\<close>

theorem pubkey_request_roundtrip:
  assumes "str_ok u" and "str_ok svc" and "str_ok alg" and "blob_ok blob" and "pred_option blob_ok sig"
  shows "AuthRequest_parse (payload (build_pubkey_auth_request u svc alg blob sig)) =
           Ok \<lparr>username = u, service = svc, auth_method = ''publickey'', credential = PublicKey alg blob sig\<rparr>"
  using assms parse_request_bytes [of u svc "PublicKey alg blob sig" "if sig = None then 0 else 1" "[]"]
  by (cases sig) (simp_all add: build_pubkey_auth_request_def wire_simps SshPacket_new_def enc_bool_flag)

theorem pubkey_request_roundtrip_witness:
  "AuthRequest_parse (payload (build_pubkey_auth_request ''bob'' ''ssh-connection'' ''ssh-ed25519'' [10, 20] (Some [30]))) =
     Ok \<lparr>username = ''bob'', service = ''ssh-connection'', auth_method = ''publickey'',
         credential = PublicKey ''ssh-ed25519'' [10, 20] (Some [30])\<rparr>"
proof -
  have "ascii_str ''bob''" "ascii_str ''ssh-connection''" "ascii_str ''ssh-ed25519''" by code_simp+
  then have s: "str_ok ''bob''" "str_ok ''ssh-connection''" "str_ok ''ssh-ed25519''"
    by (simp_all add: str_ok_def valid_str_ascii MAX_PACKET_SIZE_def)
  show ?thesis
    by (rule pubkey_request_roundtrip [OF s]) (simp_all add: blob_ok_def MAX_PACKET_SIZE_def)
qed

text \<open>C29. Every accepted request is well formed: its payload starts with the encoding of the
  parsed user, service, method and credential, the method is the one of the credential, and a
  signature is present exactly when the flag byte says so.\<close>

theorem auth_request_sound:
  assumes "AuthRequest_parse data = Ok req"
  shows "auth_method req = method_name (credential req) \<and> credential_ok (credential req) \<and>
         (\<exists>flag rest. flag_fits flag (credential req) \<and>
            data = enc_utf8 (username req) @ enc_utf8 (service req) @ enc_utf8 (auth_method req) @
                   credential_body flag (credential req) @ rest)"
  using parse_request_OkD [OF assms] by blast

theorem auth_request_sound_witness:
  "\<exists>flag rest. enc_utf8 ''u'' @ enc_utf8 ''s'' @ enc_utf8 ''password'' @ enc_flag 1 @ enc_utf8 ''p'' @ [9] =
     enc_utf8 ''u'' @ enc_utf8 ''s'' @ enc_utf8 ''password'' @ credential_body flag (Password ''p'') @ rest"
proof -
  have "ascii_str ''u''" "ascii_str ''s''" "ascii_str ''p''" by code_simp+
  then have s: "str_ok ''u''" "str_ok ''s''" "str_ok ''p''"
    by (simp_all add: str_ok_def valid_str_ascii MAX_PACKET_SIZE_def)
  have "AuthRequest_parse (enc_utf8 ''u'' @ enc_utf8 ''s'' @ enc_utf8 ''password'' @ enc_flag 1 @ enc_utf8 ''p'' @ [9]) =
      Ok \<lparr>username = ''u'', service = ''s'', auth_method = ''password'', credential = Password ''p''\<rparr>"
    using parse_request_bytes [OF s(1,2), of "Password ''p''" 1 "[9]"] s by simp
  from auth_request_sound [OF this] show ?thesis by auto
qed

text \<open>A request with a method other than password and publickey is refused with the error
  that names the method.\<close>

theorem unsupported_method_refused:
  assumes "str_ok u" and "str_ok svc" and "str_ok m" and "m \<noteq> ''password''" and "m \<noteq> ''publickey''"
  shows "AuthRequest_parse (enc_utf8 u @ enc_utf8 svc @ enc_utf8 m @ rest) =
           Err (AuthFailed (''Unsupported auth method: '' @ m))"
  using assms by (simp add: AuthRequest_parse_def wire_reads)

theorem unsupported_method_refused_witness:
  "AuthRequest_parse (enc_utf8 ''u'' @ enc_utf8 ''s'' @ enc_utf8 ''none'' @ []) =
     Err (AuthFailed (''Unsupported auth method: '' @ ''none''))"
proof -
  have "ascii_str ''u''" "ascii_str ''s''" "ascii_str ''none''" by code_simp+
  then have "str_ok ''u''" "str_ok ''s''" "str_ok ''none''"
    by (simp_all add: str_ok_def valid_str_ascii MAX_PACKET_SIZE_def)
  from unsupported_method_refused [OF this, of "[]"] show ?thesis by simp
qed

text \<open>C30. The database answers according to its history: a password verifies exactly when it is
  the last one set for the user, and a key is authorized exactly when it was added for the user.\<close>

theorem database_history:
  "(verify_password (db_of ops) u p \<longleftrightarrow> current_password ops u = Some p) \<and>
   (is_key_authorized (db_of ops) u k \<longleftrightarrow> AddKey u k \<in> set ops)"
  by (auto simp: db_of_def verify_password_def passwords_fold is_key_authorized_set public_keys_fold
      UserDatabase_new_def split: option.splits)

end
