(* ===== verification/Connection.thy ===== *)
theory Connection
  imports Auth
begin

text \<open>
  The connection protocol of \<open>src/connection/mod.rs\<close>: channels with their flow-control
  windows, the channel manager, and the messages of RFC 4254.

  The channel table is a map. Where the code searches \<open>HashMap::values()\<close> the order is not
  specified; it is an argument \<open>iter\<close> of the definitions that search, whose law \<open>iterates\<close>
  says that it lists every key once. The counter \<open>next_id\<close> is a \<open>u32\<close> whose increment panics
  in a build with overflow checks and wraps around in one without, the argument \<open>chk\<close>.

  The locale \<open>id_alloc\<close> is the contract of a table whose keys come from a counter; it is
  established for the channel manager here and for the handles of the file transfer
  subsystem in its theory. Shown besides: the table invariant under every operation, the
  flow-control account of a channel, and the round trips of the messages.
\<close>

section \<open>Keys from a counter\<close>

locale id_alloc =
  fixes alloc :: "('s, 'k) stateful"
    and ids :: "'s \<Rightarrow> 'k set"
    and counter :: "'s \<Rightarrow> nat"
    and key :: "nat \<Rightarrow> 'k"
    and limit :: nat
  assumes key_inj: "m < limit \<Longrightarrow> n < limit \<Longrightarrow> key m = key n \<Longrightarrow> m = n"
    and alloc_Ok: "counter s + 1 < limit \<Longrightarrow>
      \<exists>s'. alloc s = (Ok (key (counter s)), s') \<and> counter s' = counter s + 1 \<and>
           ids s' = insert (key (counter s)) (ids s)"
begin

definition below :: "'s \<Rightarrow> bool" where
  "below s \<longleftrightarrow> counter s < limit \<and> ids s \<subseteq> key ` {..<counter s}"

lemma key_fresh:
  assumes "below s"
  shows "key (counter s) \<notin> ids s"
proof
  assume "key (counter s) \<in> ids s"
  with assms obtain n where "n < counter s" and "key (counter s) = key n" by (auto simp: below_def)
  with assms key_inj [of "counter s" n] show False by (simp add: below_def)
qed

lemma alloc_fresh:
  assumes "below s" and "counter s + 1 < limit"
  obtains s' where "alloc s = (Ok (key (counter s)), s')" and "key (counter s) \<notin> ids s" and "below s'"
    and "counter s' = counter s + 1" and "ids s' = insert (key (counter s)) (ids s)"
proof -
  from alloc_Ok [OF assms(2)] obtain s' where s': "alloc s = (Ok (key (counter s)), s')"
    "counter s' = counter s + 1" "ids s' = insert (key (counter s)) (ids s)" by blast
  moreover have "below s'" using assms s' by (auto simp: below_def)
  ultimately show ?thesis using that key_fresh [OF assms(1)] by blast
qed

text \<open>Any number of allocations below the limit returns distinct new keys.\<close>

lemma allocs_distinct:
  assumes "below s" and "counter s + n < limit"
  shows "\<exists>ks s'. recv_many alloc n s = (Ok ks, s') \<and> distinct ks \<and> length ks = n \<and>
           set ks \<inter> ids s = {} \<and> ids s' = ids s \<union> set ks \<and> below s'"
  using assms
proof (induction n arbitrary: s)
  case 0
  then show ?case by (simp add: return_st_def)
next
  case (Suc n)
  then have "counter s + 1 < limit" by simp
  with Suc.prems(1) obtain s1 where s1: "alloc s = (Ok (key (counter s)), s1)" "key (counter s) \<notin> ids s"
    "below s1" "counter s1 = counter s + 1" "ids s1 = insert (key (counter s)) (ids s)"
    by (rule alloc_fresh)
  moreover obtain ks s' where "recv_many alloc n s1 = (Ok ks, s')" "distinct ks" "length ks = n"
    "set ks \<inter> ids s1 = {}" "ids s' = ids s1 \<union> set ks" "below s'"
    using Suc.IH [OF s1(3)] Suc.prems(2) s1(4) by auto
  ultimately show ?case by (auto simp: bind_st_def return_st_def)
qed

end

section \<open>Channels\<close>

record Channel =
  local_id :: u32
  remote_id :: u32
  channel_type :: string
  local_window :: u32
  remote_window :: u32
  local_max_packet :: u32
  remote_max_packet :: u32
  eof_sent :: bool
  eof_received :: bool
  closed :: bool
  recv_buffer :: bytes

definition Channel_new :: "u32 \<Rightarrow> string \<Rightarrow> Channel" where
  "Channel_new lid ctype =
     \<lparr>local_id = lid, remote_id = 0, channel_type = ctype, local_window = DEFAULT_WINDOW_SIZE,
      remote_window = 0, local_max_packet = DEFAULT_MAX_PACKET_SIZE, remote_max_packet = 0,
      eof_sent = False, eof_received = False, closed = False, recv_buffer = []\<rparr>"

section \<open>The channel manager\<close>

record ChannelManager =
  channels :: "u32 \<rightharpoonup> Channel"
  next_id :: u32

definition ChannelManager_new :: ChannelManager where
  "ChannelManager_new = \<lparr>channels = Map.empty, next_id = 0\<rparr>"

definition open_channel :: "bool \<Rightarrow> string \<Rightarrow> (ChannelManager, u32) stateful" where
  "open_channel chk ctype mgr =
     (let id = next_id mgr in
      case add_u32 chk (next_id mgr) 1 of
        Ok n \<Rightarrow>
          (let mgr = mgr\<lparr>next_id := n\<rparr>;
               channel = Channel_new id ctype
           in (Ok id, mgr\<lparr>channels := (channels mgr)(id \<mapsto> channel)\<rparr>))
      | Err e \<Rightarrow> (Err e, mgr)
      | Panic \<Rightarrow> (Panic, mgr))"

definition unknown_channel :: "u32 \<Rightarrow> SshError" where
  "unknown_channel lid = ChannelErr (''Unknown channel '' @ show_nat (unat lid))"

definition confirm_channel :: "u32 \<Rightarrow> u32 \<Rightarrow> u32 \<Rightarrow> u32 \<Rightarrow> (ChannelManager, unit) stateful" where
  "confirm_channel lid rid rwindow rmax mgr =
     (case channels mgr lid of
        None \<Rightarrow> (Err (unknown_channel lid), mgr)
      | Some ch \<Rightarrow>
          (let ch = ch\<lparr>remote_id := rid\<rparr>;
               ch = ch\<lparr>remote_window := rwindow\<rparr>;
               ch = ch\<lparr>remote_max_packet := rmax\<rparr>
           in (Ok (), mgr\<lparr>channels := (channels mgr)(lid \<mapsto> ch)\<rparr>)))"

definition accept_channel :: "bool \<Rightarrow> u32 \<Rightarrow> string \<Rightarrow> u32 \<Rightarrow> u32 \<Rightarrow> (ChannelManager, u32) stateful" where
  "accept_channel chk rid ctype rwindow rmax mgr =
     (let lid = next_id mgr in
      case add_u32 chk (next_id mgr) 1 of
        Ok n \<Rightarrow>
          (let mgr = mgr\<lparr>next_id := n\<rparr>;
               channel = Channel_new lid ctype;
               channel = channel\<lparr>remote_id := rid\<rparr>;
               channel = channel\<lparr>remote_window := rwindow\<rparr>;
               channel = channel\<lparr>remote_max_packet := rmax\<rparr>
           in (Ok lid, mgr\<lparr>channels := (channels mgr)(lid \<mapsto> channel)\<rparr>))
      | Err e \<Rightarrow> (Err e, mgr)
      | Panic \<Rightarrow> (Panic, mgr))"

definition get_channel :: "ChannelManager \<Rightarrow> u32 \<Rightarrow> Channel option" where
  "get_channel mgr lid = channels mgr lid"

text \<open>A mutable reference is modelled by the update that is made through it.\<close>

definition get_mut :: "u32 \<Rightarrow> (Channel \<Rightarrow> Channel) \<Rightarrow> ChannelManager \<Rightarrow> ChannelManager" where
  "get_mut lid upd mgr =
     (case channels mgr lid of
        None \<Rightarrow> mgr
      | Some ch \<Rightarrow> mgr\<lparr>channels := (channels mgr)(lid \<mapsto> upd ch)\<rparr>)"

type_synonym channel_iter = "(u32 \<rightharpoonup> Channel) \<Rightarrow> u32 list"

definition channel_values :: "channel_iter \<Rightarrow> ChannelManager \<Rightarrow> Channel list" where
  "channel_values iter mgr = List.map_filter (channels mgr) (iter (channels mgr))"

definition find_by_remote_id :: "channel_iter \<Rightarrow> ChannelManager \<Rightarrow> u32 \<Rightarrow> Channel option" where
  "find_by_remote_id iter mgr rid = List.find (\<lambda>ch. remote_id ch = rid) (channel_values iter mgr)"

definition find_by_remote_id_mut ::
  "channel_iter \<Rightarrow> u32 \<Rightarrow> (Channel \<Rightarrow> Channel) \<Rightarrow> ChannelManager \<Rightarrow> ChannelManager" where
  "find_by_remote_id_mut iter rid upd mgr =
     (case List.find (\<lambda>k. case channels mgr k of Some ch \<Rightarrow> remote_id ch = rid | None \<Rightarrow> False)
             (iter (channels mgr)) of
        None \<Rightarrow> mgr
      | Some k \<Rightarrow> get_mut k upd mgr)"

definition remove_channel :: "u32 \<Rightarrow> ChannelManager \<Rightarrow> Channel option \<times> ChannelManager" where
  "remove_channel lid mgr = (channels mgr lid, mgr\<lparr>channels := (channels mgr)(lid := None)\<rparr>)"

text \<open>\<open>data.len() as u32\<close> keeps the low 32 bits of the length.\<close>

definition receive_data :: "u32 \<Rightarrow> bytes \<Rightarrow> (ChannelManager, unit) stateful" where
  "receive_data lid data mgr =
     (case channels mgr lid of
        None \<Rightarrow> (Err (unknown_channel lid), mgr)
      | Some ch \<Rightarrow>
          (if (of_nat (length data) :: u32) > local_window ch
           then (Err (ChannelErr ''Window overflow''), mgr)
           else let ch = ch\<lparr>local_window := local_window ch - of_nat (length data)\<rparr>;
                    ch = ch\<lparr>recv_buffer := recv_buffer ch @ data\<rparr>
                in (Ok (), mgr\<lparr>channels := (channels mgr)(lid \<mapsto> ch)\<rparr>)))"

definition consume_remote_window :: "u32 \<Rightarrow> u32 \<Rightarrow> (ChannelManager, unit) stateful" where
  "consume_remote_window lid amount mgr =
     (case channels mgr lid of
        None \<Rightarrow> (Err (unknown_channel lid), mgr)
      | Some ch \<Rightarrow>
          (if amount > remote_window ch
           then (Err (ChannelErr ''Would exceed remote window''), mgr)
           else let ch = ch\<lparr>remote_window := remote_window ch - amount\<rparr>
                in (Ok (), mgr\<lparr>channels := (channels mgr)(lid \<mapsto> ch)\<rparr>)))"

definition adjust_local_window :: "u32 \<Rightarrow> u32 \<Rightarrow> (ChannelManager, unit) stateful" where
  "adjust_local_window lid amount mgr =
     (case channels mgr lid of
        None \<Rightarrow> (Err (unknown_channel lid), mgr)
      | Some ch \<Rightarrow>
          (let ch = ch\<lparr>local_window := saturating_add_u32 (local_window ch) amount\<rparr>
           in (Ok (), mgr\<lparr>channels := (channels mgr)(lid \<mapsto> ch)\<rparr>)))"

definition active_count :: "channel_iter \<Rightarrow> ChannelManager \<Rightarrow> nat" where
  "active_count iter mgr = length (filter (\<lambda>ch. \<not> closed ch) (channel_values iter mgr))"

section \<open>Messages\<close>

definition build_channel_open :: "string \<Rightarrow> u32 \<Rightarrow> u32 \<Rightarrow> u32 \<Rightarrow> SshPacket" where
  "build_channel_open ctype sender_channel initial_window max_packet =
     (let buf = write_utf8 [] ctype;
          buf = write_u32 buf sender_channel;
          buf = write_u32 buf initial_window;
          buf = write_u32 buf max_packet
      in SshPacket_new ChannelOpen buf)"

definition build_channel_open_confirmation :: "u32 \<Rightarrow> u32 \<Rightarrow> u32 \<Rightarrow> u32 \<Rightarrow> SshPacket" where
  "build_channel_open_confirmation recipient_channel sender_channel initial_window max_packet =
     (let buf = write_u32 [] recipient_channel;
          buf = write_u32 buf sender_channel;
          buf = write_u32 buf initial_window;
          buf = write_u32 buf max_packet
      in SshPacket_new ChannelOpenConfirmation buf)"

definition build_channel_open_failure :: "u32 \<Rightarrow> u32 \<Rightarrow> string \<Rightarrow> SshPacket" where
  "build_channel_open_failure recipient_channel reason_code description =
     (let buf = write_u32 [] recipient_channel;
          buf = write_u32 buf reason_code;
          buf = write_utf8 buf description;
          buf = write_utf8 buf ''en''
      in SshPacket_new ChannelOpenFailure buf)"

definition build_channel_data :: "u32 \<Rightarrow> bytes \<Rightarrow> SshPacket" where
  "build_channel_data recipient_channel data =
     (let buf = write_u32 [] recipient_channel;
          buf = write_string buf data
      in SshPacket_new ChannelData buf)"

definition build_window_adjust :: "u32 \<Rightarrow> u32 \<Rightarrow> SshPacket" where
  "build_window_adjust recipient_channel bytes_to_add =
     (let buf = write_u32 [] recipient_channel;
          buf = write_u32 buf bytes_to_add
      in SshPacket_new ChannelWindowAdjust buf)"

definition build_channel_eof :: "u32 \<Rightarrow> SshPacket" where
  "build_channel_eof recipient_channel = SshPacket_new ChannelEof (write_u32 [] recipient_channel)"

definition build_channel_close :: "u32 \<Rightarrow> SshPacket" where
  "build_channel_close recipient_channel = SshPacket_new ChannelClose (write_u32 [] recipient_channel)"

definition build_exec_request :: "u32 \<Rightarrow> string \<Rightarrow> bool \<Rightarrow> SshPacket" where
  "build_exec_request recipient_channel command want_reply =
     (let buf = write_u32 [] recipient_channel;
          buf = write_utf8 buf ''exec'';
          buf = write_bool buf want_reply;
          buf = write_utf8 buf command
      in SshPacket_new ChannelRequest buf)"

definition build_shell_request :: "u32 \<Rightarrow> bool \<Rightarrow> SshPacket" where
  "build_shell_request recipient_channel want_reply =
     (let buf = write_u32 [] recipient_channel;
          buf = write_utf8 buf ''shell'';
          buf = write_bool buf want_reply
      in SshPacket_new ChannelRequest buf)"

definition build_pty_request :: "u32 \<Rightarrow> string \<Rightarrow> u32 \<Rightarrow> u32 \<Rightarrow> u32 \<Rightarrow> u32 \<Rightarrow> bool \<Rightarrow> SshPacket" where
  "build_pty_request recipient_channel term_name width_cols height_rows width_px height_px want_reply =
     (let buf = write_u32 [] recipient_channel;
          buf = write_utf8 buf ''pty-req'';
          buf = write_bool buf want_reply;
          buf = write_utf8 buf term_name;
          buf = write_u32 buf width_cols;
          buf = write_u32 buf height_rows;
          buf = write_u32 buf width_px;
          buf = write_u32 buf height_px;
          buf = write_string buf [0]
      in SshPacket_new ChannelRequest buf)"

record ChannelOpenMsg =
  open_channel_type :: string
  open_sender_channel :: u32
  open_initial_window :: u32
  open_max_packet :: u32

definition ChannelOpenMsg_parse :: "bytes \<Rightarrow> ChannelOpenMsg outcome" where
  "ChannelOpenMsg_parse p =
     and_then (read_utf8 (cursor_new p)) (\<lambda>(ctype, c).
     and_then (read_u32 c) (\<lambda>(sender, c).
     and_then (read_u32 c) (\<lambda>(window, c).
     and_then (read_u32 c) (\<lambda>(maxp, c).
       Ok \<lparr>open_channel_type = ctype, open_sender_channel = sender, open_initial_window = window,
           open_max_packet = maxp\<rparr>))))"

record ChannelDataMsg =
  data_recipient_channel :: u32
  data_data :: bytes

definition ChannelDataMsg_parse :: "bytes \<Rightarrow> ChannelDataMsg outcome" where
  "ChannelDataMsg_parse p =
     and_then (read_u32 (cursor_new p)) (\<lambda>(recipient, c).
     and_then (read_string c) (\<lambda>(d, c).
       Ok \<lparr>data_recipient_channel = recipient, data_data = d\<rparr>))"

record ChannelRequestMsg =
  req_recipient_channel :: u32
  req_request_type :: string
  req_want_reply :: bool
  req_data :: bytes

definition ChannelRequestMsg_parse :: "bytes \<Rightarrow> ChannelRequestMsg outcome" where
  "ChannelRequestMsg_parse p =
     and_then (read_u32 (cursor_new p)) (\<lambda>(recipient, c).
     and_then (read_utf8 c) (\<lambda>(rtype, c).
     and_then (read_bool c) (\<lambda>(want, c).
       let pos = cpos c;
           d = drop pos p
       in Ok \<lparr>req_recipient_channel = recipient, req_request_type = rtype, req_want_reply = want,
              req_data = d\<rparr>)))"

section \<open>Facts on the channel table\<close>

definition mgr_ok :: "ChannelManager \<Rightarrow> bool" where
  "mgr_ok mgr \<longleftrightarrow> finite (dom (channels mgr)) \<and>
     (\<forall>k ch. channels mgr k = Some ch \<longrightarrow> local_id ch = k \<and> k < next_id mgr)"

definition iterates :: "channel_iter \<Rightarrow> bool" where
  "iterates iter \<longleftrightarrow> (\<forall>m. finite (dom m) \<longrightarrow> distinct (iter m) \<and> set (iter m) = dom m)"

lemma u32_of_nat_inj: "m < 2 ^ 32 \<Longrightarrow> n < 2 ^ 32 \<Longrightarrow> (of_nat m :: u32) = of_nat n \<Longrightarrow> m = n"
  by (metis unat_of_nat_u32)

lemma add_u32_one:
  "unat n + 1 < 2 ^ 32 \<Longrightarrow> add_u32 chk n 1 = Ok (n + 1) \<and> unat (n + 1) = unat n + 1"
  using add_u32_Ok [of n 1 chk] by simp

lemma open_channel_Ok:
  assumes "unat (next_id m) + 1 < 2 ^ 32"
  shows "open_channel chk ctype m =
           (Ok (next_id m), m\<lparr>next_id := next_id m + 1,
              channels := (channels m)(next_id m \<mapsto> Channel_new (next_id m) ctype)\<rparr>)"
    and "unat (next_id m + 1) = unat (next_id m) + 1"
  using add_u32_one [OF assms] by (simp_all add: open_channel_def Let_def)

lemma accept_channel_Ok:
  assumes "unat (next_id m) + 1 < 2 ^ 32"
  shows "accept_channel chk rid ctype win maxp m =
           (Ok (next_id m), m\<lparr>next_id := next_id m + 1,
              channels := (channels m)(next_id m \<mapsto> (Channel_new (next_id m) ctype)
                \<lparr>remote_id := rid, remote_window := win, remote_max_packet := maxp\<rparr>)\<rparr>)"
  using add_u32_one [OF assms] by (simp add: accept_channel_def Let_def)

interpretation opened: id_alloc "open_channel chk ctype" "\<lambda>m. dom (channels m)" "\<lambda>m. unat (next_id m)"
    "of_nat :: nat \<Rightarrow> u32" "2 ^ 32" for chk ctype
proof
  show "m = n" if "m < 2 ^ 32" "n < 2 ^ 32" "(of_nat m :: u32) = of_nat n" for m n
    using that by (rule u32_of_nat_inj)
  show "\<exists>s'. open_channel chk ctype s = (Ok (of_nat (unat (next_id s))), s') \<and>
          unat (next_id s') = unat (next_id s) + 1 \<and>
          dom (channels s') = insert (of_nat (unat (next_id s))) (dom (channels s))"
    if "unat (next_id s) + 1 < 2 ^ 32" for s
    using open_channel_Ok [OF that] by simp
qed

interpretation accepted: id_alloc "accept_channel chk rid ctype win maxp" "\<lambda>m. dom (channels m)"
    "\<lambda>m. unat (next_id m)" "of_nat :: nat \<Rightarrow> u32" "2 ^ 32" for chk rid ctype win maxp
proof
  show "m = n" if "m < 2 ^ 32" "n < 2 ^ 32" "(of_nat m :: u32) = of_nat n" for m n
    using that by (rule u32_of_nat_inj)
  show "\<exists>s'. accept_channel chk rid ctype win maxp s = (Ok (of_nat (unat (next_id s))), s') \<and>
          unat (next_id s') = unat (next_id s) + 1 \<and>
          dom (channels s') = insert (of_nat (unat (next_id s))) (dom (channels s))"
    if "unat (next_id s) + 1 < 2 ^ 32" for s
    using accept_channel_Ok [OF that] open_channel_Ok(2) [OF that] by simp
qed

lemma mgr_ok_below: "mgr_ok m \<Longrightarrow> opened.below m"
proof -
  assume ok: "mgr_ok m"
  have "k \<in> of_nat ` {..<unat (next_id m)}" if "k \<in> dom (channels m)" for k
  proof -
    have "unat k < unat (next_id m)" using ok that by (auto simp: mgr_ok_def word_less_nat_alt)
    then show ?thesis by (intro image_eqI [of _ _ "unat k"]) simp_all
  qed
  moreover have "unat (next_id m) < 2 ^ 32" using unsigned_less [of "next_id m", where ?'a = nat] by simp
  ultimately show ?thesis unfolding opened.below_def by blast
qed

section \<open>The operations as steps\<close>

text \<open>Every operation that changes a manager, whatever it returns. An allocation is a step
  while the counter does not overflow; an update through a mutable reference keeps the
  identifier of the channel, as every use in the program does.\<close>

inductive mgr_step :: "channel_iter \<Rightarrow> bool \<Rightarrow> ChannelManager \<Rightarrow> ChannelManager \<Rightarrow> bool"
  for iter :: channel_iter and chk :: bool where
  opens: "unat (next_id m) + 1 < 2 ^ 32 \<Longrightarrow> open_channel chk ctype m = (r, m') \<Longrightarrow> mgr_step iter chk m m'"
| accepts: "unat (next_id m) + 1 < 2 ^ 32 \<Longrightarrow> accept_channel chk rid ctype win maxp m = (r, m') \<Longrightarrow> mgr_step iter chk m m'"
| confirms: "confirm_channel lid rid win maxp m = (r', m') \<Longrightarrow> mgr_step iter chk m m'"
| removes: "remove_channel lid m = (c, m') \<Longrightarrow> mgr_step iter chk m m'"
| receives: "receive_data lid d m = (r', m') \<Longrightarrow> mgr_step iter chk m m'"
| consumes: "consume_remote_window lid n m = (r', m') \<Longrightarrow> mgr_step iter chk m m'"
| adjusts: "adjust_local_window lid n m = (r', m') \<Longrightarrow> mgr_step iter chk m m'"
| updates: "(\<And>ch. local_id (upd ch) = local_id ch) \<Longrightarrow> get_mut lid upd m = m' \<Longrightarrow> mgr_step iter chk m m'"
| finds: "(\<And>ch. local_id (upd ch) = local_id ch) \<Longrightarrow> find_by_remote_id_mut iter rid upd m = m' \<Longrightarrow> mgr_step iter chk m m'"

inductive mgr_reachable :: "channel_iter \<Rightarrow> bool \<Rightarrow> ChannelManager \<Rightarrow> bool"
  for iter :: channel_iter and chk :: bool where
  init: "mgr_reachable iter chk ChannelManager_new"
| step: "mgr_reachable iter chk m \<Longrightarrow> mgr_step iter chk m m' \<Longrightarrow> mgr_reachable iter chk m'"

text \<open>All operations but the allocations replace one channel by one with the same identifier,
  remove one, or change nothing.\<close>

lemma mgr_ok_replace:
  "mgr_ok m \<Longrightarrow> channels m k = Some ch \<Longrightarrow> local_id ch' = local_id ch \<Longrightarrow>
   mgr_ok (m\<lparr>channels := (channels m)(k \<mapsto> ch')\<rparr>)"
  by (simp add: mgr_ok_def)

lemma mgr_ok_insert:
  assumes "mgr_ok m" and "unat (next_id m) + 1 < 2 ^ 32" and "local_id ch = next_id m"
  shows "mgr_ok (m\<lparr>next_id := next_id m + 1, channels := (channels m)(next_id m \<mapsto> ch)\<rparr>)"
proof -
  have "unat (next_id m + 1) = unat (next_id m) + 1" using assms(2) by (rule open_channel_Ok(2))
  then have "k < next_id m + 1" if "k \<le> next_id m" for k
    using that by (simp add: word_less_nat_alt word_le_nat_alt)
  with assms(1,3) show ?thesis by (auto simp: mgr_ok_def intro: less_imp_le)
qed

lemma mgr_ok_get_mut: "(\<And>ch. local_id (upd ch) = local_id ch) \<Longrightarrow> mgr_ok m \<Longrightarrow> mgr_ok (get_mut k upd m)"
  by (auto simp: get_mut_def intro: mgr_ok_replace split: option.splits)

lemma mgr_step_ok:
  assumes "mgr_step iter chk m m'" and ok: "mgr_ok m"
  shows "mgr_ok m'"
  using assms(1)
proof cases
  case opens
  with ok show ?thesis
    using mgr_ok_insert [of m] open_channel_Ok(1) [of m] by (auto simp: Channel_new_def)
next
  case accepts
  with ok show ?thesis
    using mgr_ok_insert [of m] accept_channel_Ok [of m] by (auto simp: Channel_new_def)
next
  case confirms
  with ok show ?thesis
    by (auto simp: confirm_channel_def Let_def intro: mgr_ok_replace split: option.splits)
next
  case removes
  with ok show ?thesis by (auto simp: remove_channel_def mgr_ok_def split: if_splits)
next
  case receives
  with ok show ?thesis
    by (auto simp: receive_data_def Let_def intro: mgr_ok_replace split: option.splits if_splits)
next
  case consumes
  with ok show ?thesis
    by (auto simp: consume_remote_window_def Let_def intro: mgr_ok_replace split: option.splits if_splits)
next
  case adjusts
  with ok show ?thesis
    by (auto simp: adjust_local_window_def Let_def intro: mgr_ok_replace split: option.splits)
next
  case updates
  with ok show ?thesis by (auto intro: mgr_ok_get_mut)
next
  case finds
  with ok show ?thesis by (auto simp: find_by_remote_id_mut_def intro: mgr_ok_get_mut split: option.splits)
qed

lemma mgr_ok_new: "mgr_ok ChannelManager_new"
  by (simp add: mgr_ok_def ChannelManager_new_def)

lemma mgr_reachable_ok: "mgr_reachable iter chk m \<Longrightarrow> mgr_ok m"
  by (induction rule: mgr_reachable.induct) (auto intro: mgr_ok_new mgr_step_ok)

section \<open>Searching\<close>

lemma set_channel_values:
  assumes "iterates iter" and "finite (dom (channels m))"
  shows "set (channel_values iter m) = ran (channels m)"
  using assms
  by (force simp: channel_values_def map_filter_def iterates_def ran_def image_def)

lemma find_by_remote_id_Some:
  assumes "iterates iter" and "mgr_ok m" and "find_by_remote_id iter m rid = Some ch"
  shows "remote_id ch = rid \<and> channels m (local_id ch) = Some ch"
proof -
  have "ch \<in> set (channel_values iter m) \<and> remote_id ch = rid"
    using assms(3) by (auto simp: find_by_remote_id_def find_Some_iff)
  with assms(1,2) show ?thesis by (auto simp: set_channel_values mgr_ok_def ran_def)
qed

lemma find_by_remote_id_None:
  assumes "iterates iter" and "mgr_ok m"
  shows "find_by_remote_id iter m rid = None \<longleftrightarrow> (\<forall>k ch. channels m k = Some ch \<longrightarrow> remote_id ch \<noteq> rid)"
  using assms
  by (auto simp: find_by_remote_id_def find_None_iff set_channel_values mgr_ok_def ran_def)

section \<open>Flow control\<close>

datatype flow_event = Received bytes | Granted u32

fun flow_step :: "u32 \<Rightarrow> flow_event \<Rightarrow> (ChannelManager, unit) stateful" where
  "flow_step lid (Received d) = receive_data lid d"
| "flow_step lid (Granted n) = adjust_local_window lid n"

definition flow_run :: "u32 \<Rightarrow> flow_event list \<Rightarrow> ChannelManager \<Rightarrow> ChannelManager" where
  "flow_run lid evs m = fold (\<lambda>e m. snd (flow_step lid e m)) evs m"

fun granted :: "flow_event list \<Rightarrow> nat" where
  "granted [] = 0"
| "granted (Received d # evs) = granted evs"
| "granted (Granted n # evs) = unat n + granted evs"

definition chunk_ok :: "flow_event \<Rightarrow> bool" where
  "chunk_ok e = (case e of Received d \<Rightarrow> length d < 2 ^ 32 | Granted n \<Rightarrow> True)"

lemma receive_data_cases:
  assumes "channels m lid = Some ch" and "length d < 2 ^ 32"
  shows "receive_data lid d m =
    (if unat (local_window ch) < length d then (Err (ChannelErr ''Window overflow''), m)
     else (Ok (), m\<lparr>channels := (channels m)(lid \<mapsto> ch\<lparr>local_window := local_window ch - of_nat (length d),
             recv_buffer := recv_buffer ch @ d\<rparr>)\<rparr>))"
  using assms by (simp add: receive_data_def word_less_nat_alt unat_of_nat_u32)

lemma unat_sub_of_nat:
  "n \<le> unat (w :: u32) \<Longrightarrow> unat (w - of_nat n) = unat w - n"
proof -
  assume le: "n \<le> unat w"
  then have n: "n < 2 ^ 32" using unsigned_less [of w, where ?'a = nat] by simp
  then have "of_nat n \<le> w" using le by (simp add: word_le_nat_alt unat_of_nat_u32)
  with n show ?thesis by (simp add: unat_sub unat_of_nat_u32)
qed

lemma flow_account:
  assumes "channels m lid = Some ch" and "list_all chunk_ok evs"
    and "unat (local_window ch) + granted evs < 2 ^ 32"
  shows "\<exists>ch'. channels (flow_run lid evs m) lid = Some ch' \<and>
           length (recv_buffer ch') + unat (local_window ch') =
             length (recv_buffer ch) + unat (local_window ch) + granted evs"
  using assms
proof (induction evs arbitrary: m ch)
  case Nil
  then show ?case by (simp add: flow_run_def)
next
  case (Cons e evs)
  show ?case
  proof (cases e)
    case (Received d)
    show ?thesis
    proof (cases "unat (local_window ch) < length d")
      case True
      with Cons Received show ?thesis by (simp add: flow_run_def chunk_ok_def receive_data_cases)
    next
      case False
      let ?ch = "ch\<lparr>local_window := local_window ch - of_nat (length d), recv_buffer := recv_buffer ch @ d\<rparr>"
      let ?m = "m\<lparr>channels := (channels m)(lid \<mapsto> ?ch)\<rparr>"
      have w: "unat (local_window ?ch) = unat (local_window ch) - length d"
        using False by (simp add: unat_sub_of_nat)
      have "channels ?m lid = Some ?ch" by simp
      from Cons.IH [OF this] Cons.prems Received w False show ?thesis
        by (simp add: flow_run_def chunk_ok_def receive_data_cases)
    qed
  next
    case (Granted n)
    let ?ch = "ch\<lparr>local_window := saturating_add_u32 (local_window ch) n\<rparr>"
    let ?m = "m\<lparr>channels := (channels m)(lid \<mapsto> ?ch)\<rparr>"
    have w: "unat (local_window ?ch) = unat (local_window ch) + unat n"
      using Cons.prems(3) Granted by (simp add: saturating_add_u32_unat)
    have "channels ?m lid = Some ?ch" by simp
    from Cons.IH [OF this] Cons.prems Granted w show ?thesis
      by (simp add: flow_run_def adjust_local_window_def add.assoc)
  qed
qed

section \<open>Properties of the connection layer\<close>

text \<open>An iteration order to evaluate the definitions with.\<close>

definition demo_iter :: channel_iter where
  "demo_iter m = sorted_list_of_set (dom m)"

lemma demo_iterates: "iterates demo_iter"
  by (simp add: iterates_def demo_iter_def)

lemma session_ok: "str_ok ''session''" "str_ok ''exec''" "str_ok ''shell''" "str_ok ''pty-req''"
proof -
  have "ascii_str ''session''" "ascii_str ''exec''" "ascii_str ''shell''" "ascii_str ''pty-req''" by code_simp+
  then show "str_ok ''session''" "str_ok ''exec''" "str_ok ''shell''" "str_ok ''pty-req''"
    by (simp_all add: str_ok_def valid_str_ascii MAX_PACKET_SIZE_def)
qed

lemma one_channel_reachable:
  "mgr_reachable iter chk (snd (open_channel chk ''session'' ChannelManager_new))"
proof (rule mgr_reachable.step [OF mgr_reachable.init])
  show "mgr_step iter chk ChannelManager_new (snd (open_channel chk ''session'' ChannelManager_new))"
    by (rule mgr_step.opens) (auto simp: ChannelManager_new_def intro: prod.collapse [symmetric])
qed



text \<open>Opening any number of channels below the limit of the counter returns that many distinct
  identifiers, none of which was in use.\<close>

theorem opened_channels_distinct:
  assumes "mgr_reachable iter chk m" and "unat (next_id m) + n < 2 ^ 32"
  shows "\<exists>ks m'. recv_many (open_channel chk ctype) n m = (Ok ks, m') \<and> distinct ks \<and> length ks = n \<and>
           set ks \<inter> dom (channels m) = {} \<and> dom (channels m') = dom (channels m) \<union> set ks"
proof -
  have "opened.below m" using assms(1) by (intro mgr_ok_below mgr_reachable_ok)
  from opened.allocs_distinct [OF this assms(2)] show ?thesis by blast
qed

theorem opened_channels_distinct_witness:
  "\<exists>ks m'. recv_many (open_channel True ''session'') 1000 ChannelManager_new = (Ok ks, m') \<and>
     distinct ks \<and> length ks = 1000"
  using opened_channels_distinct [OF mgr_reachable.init [of demo_iter], of 1000 True "''session''"]
  by (auto simp: ChannelManager_new_def)



text \<open>Data is accepted exactly when the channel is known and the low 32 bits of its length fit
  the window; then the data is appended and the window shrinks by that number. Every refusal
  leaves the manager as it was.\<close>

theorem receive_data_spec:
  "receive_data lid d m =
    (case channels m lid of
       None \<Rightarrow> (Err (ChannelErr (''Unknown channel '' @ show_nat (unat lid))), m)
     | Some ch \<Rightarrow>
         if length d mod 2 ^ 32 \<le> unat (local_window ch)
         then (Ok (), m\<lparr>channels := (channels m)(lid \<mapsto>
                 ch\<lparr>local_window := of_nat (unat (local_window ch) - length d mod 2 ^ 32),
                    recv_buffer := recv_buffer ch @ d\<rparr>)\<rparr>)
         else (Err (ChannelErr ''Window overflow''), m))"
proof -
  have len: "(of_nat (length d) :: u32) = of_nat (length d mod 2 ^ 32)"
    by (rule word_unat_eq_iff [THEN iffD2]) (simp add: unat_of_nat take_bit_eq_mod)
  have "w - of_nat n = of_nat (unat w - n)" if "n \<le> unat w" for w :: u32 and n
    using of_nat_diff [OF that, where ?'a = u32] by simp
  moreover have "unat (of_nat (length d mod 2 ^ 32) :: u32) = length d mod 2 ^ 32"
    by (rule unat_of_nat_u32) simp
  ultimately show ?thesis
    unfolding receive_data_def unknown_channel_def Let_def len
    by (simp add: word_less_nat_alt split: option.splits)
qed

text \<open>Searching by the peer's identifier returns a channel of the table with that identifier,
  under its own local identifier, and fails only when there is none, whatever the iteration order
  of the table.\<close>

theorem find_by_remote_id_spec:
  assumes "iterates iter" and "mgr_reachable iter chk m"
  shows "case find_by_remote_id iter m rid of
           None \<Rightarrow> \<forall>k ch. channels m k = Some ch \<longrightarrow> remote_id ch \<noteq> rid
         | Some ch \<Rightarrow> remote_id ch = rid \<and> channels m (local_id ch) = Some ch"
proof -
  have "mgr_ok m" using assms(2) by (rule mgr_reachable_ok)
  then show ?thesis
    using find_by_remote_id_Some [OF assms(1)] find_by_remote_id_None [OF assms(1)]
    by (auto split: option.splits)
qed

theorem find_by_remote_id_spec_witness:
  "\<exists>ch. find_by_remote_id demo_iter (snd (accept_channel True 7 ''session'' 100 50 ChannelManager_new)) 7 = Some ch \<and>
        remote_id ch = 7 \<and> local_id ch = 0"
proof -
  let ?m = "snd (accept_channel True 7 ''session'' 100 50 ChannelManager_new)"
  have m: "channels ?m = [0 \<mapsto> (Channel_new 0 ''session'')\<lparr>remote_id := 7, remote_window := 100, remote_max_packet := 50\<rparr>]"
    using accept_channel_Ok [of ChannelManager_new True 7 "''session''" 100 50] by (simp add: ChannelManager_new_def)
  have "mgr_step demo_iter True ChannelManager_new ?m"
    by (rule mgr_step.accepts) (auto simp: ChannelManager_new_def intro: prod.collapse [symmetric])
  then have "mgr_reachable demo_iter True ?m" by (rule mgr_reachable.step [OF mgr_reachable.init])
  from find_by_remote_id_spec [OF demo_iterates this, of 7] show ?thesis
    by (cases "find_by_remote_id demo_iter ?m 7") (auto simp: m Channel_new_def split: if_splits)
qed

lemma parse_channel_open:
  "str_ok ctype \<Longrightarrow> ChannelOpenMsg_parse (payload (build_channel_open ctype sender win maxp)) =
     Ok \<lparr>open_channel_type = ctype, open_sender_channel = sender, open_initial_window = win, open_max_packet = maxp\<rparr>"
  by (simp add: ChannelOpenMsg_parse_def build_channel_open_def SshPacket_new_def wire_simps wire_reads)

lemma parse_channel_data:
  "blob_ok d \<Longrightarrow> ChannelDataMsg_parse (payload (build_channel_data rcpt d)) = Ok \<lparr>data_recipient_channel = rcpt, data_data = d\<rparr>"
  by (simp add: ChannelDataMsg_parse_def build_channel_data_def SshPacket_new_def wire_simps wire_reads)

lemma parse_exec_request:
  "str_ok cmd \<Longrightarrow> ChannelRequestMsg_parse (payload (build_exec_request rcpt cmd want)) =
     Ok \<lparr>req_recipient_channel = rcpt, req_request_type = ''exec'', req_want_reply = want, req_data = write_utf8 [] cmd\<rparr>"
  using session_ok
  by (simp add: ChannelRequestMsg_parse_def build_exec_request_def SshPacket_new_def wire_simps wire_reads)

text \<open>The messages a client builds are what the server parses: a channel open with its four
  fields, channel data with its bytes, and an exec request whose type-specific part holds exactly
  the command.\<close>

theorem channel_messages_roundtrip:
  assumes "str_ok ctype" and "blob_ok d" and "str_ok cmd"
  shows "ChannelOpenMsg_parse (payload (build_channel_open ctype sender win maxp)) =
           Ok \<lparr>open_channel_type = ctype, open_sender_channel = sender, open_initial_window = win, open_max_packet = maxp\<rparr> \<and>
         ChannelDataMsg_parse (payload (build_channel_data rcpt d)) =
           Ok \<lparr>data_recipient_channel = rcpt, data_data = d\<rparr> \<and>
         ChannelRequestMsg_parse (payload (build_exec_request rcpt cmd want)) =
           Ok \<lparr>req_recipient_channel = rcpt, req_request_type = ''exec'', req_want_reply = want,
               req_data = write_utf8 [] cmd\<rparr>"
  using assms by (simp add: parse_channel_open parse_channel_data parse_exec_request)

theorem channel_messages_roundtrip_witness:
  "ChannelDataMsg_parse (payload (build_channel_data 7 [104, 105])) =
     Ok \<lparr>data_recipient_channel = 7, data_data = [104, 105]\<rparr>"
  using channel_messages_roundtrip [OF session_ok(1) _ session_ok(2), of "[104, 105]" 0 0 0 7 True]
  by (simp add: blob_ok_def MAX_PACKET_SIZE_def)

end
