(* ===== verification/Sftp_Protocol.thy ===== *)
theory Sftp_Protocol
  imports Connection
begin

unbundle bit_operations_syntax

text \<open>
  The messages of the file transfer protocol in \<open>src/sftp/mod.rs\<close>: constants, file
  attributes, request and response packets and their builders.

  Shown here: attributes whose flags say which fields are present are decoded as they were
  encoded (they keep the contract \<open>wire_item\<close>), a packet is decoded as it was encoded, and
  the length prefix counts the bytes behind it.
\<close>

section \<open>Constants\<close>

definition SSH_FXP_INIT :: u8 where "SSH_FXP_INIT = 1"
definition SSH_FXP_VERSION :: u8 where "SSH_FXP_VERSION = 2"
definition SSH_FXP_OPEN :: u8 where "SSH_FXP_OPEN = 3"
definition SSH_FXP_CLOSE :: u8 where "SSH_FXP_CLOSE = 4"
definition SSH_FXP_READ :: u8 where "SSH_FXP_READ = 5"
definition SSH_FXP_WRITE :: u8 where "SSH_FXP_WRITE = 6"
definition SSH_FXP_LSTAT :: u8 where "SSH_FXP_LSTAT = 7"
definition SSH_FXP_FSTAT :: u8 where "SSH_FXP_FSTAT = 8"
definition SSH_FXP_SETSTAT :: u8 where "SSH_FXP_SETSTAT = 9"
definition SSH_FXP_OPENDIR :: u8 where "SSH_FXP_OPENDIR = 11"
definition SSH_FXP_READDIR :: u8 where "SSH_FXP_READDIR = 12"
definition SSH_FXP_REMOVE :: u8 where "SSH_FXP_REMOVE = 13"
definition SSH_FXP_MKDIR :: u8 where "SSH_FXP_MKDIR = 14"
definition SSH_FXP_RMDIR :: u8 where "SSH_FXP_RMDIR = 15"
definition SSH_FXP_REALPATH :: u8 where "SSH_FXP_REALPATH = 16"
definition SSH_FXP_STAT :: u8 where "SSH_FXP_STAT = 17"
definition SSH_FXP_STATUS :: u8 where "SSH_FXP_STATUS = 101"
definition SSH_FXP_HANDLE :: u8 where "SSH_FXP_HANDLE = 102"
definition SSH_FXP_DATA :: u8 where "SSH_FXP_DATA = 103"
definition SSH_FXP_NAME :: u8 where "SSH_FXP_NAME = 104"
definition SSH_FXP_ATTRS :: u8 where "SSH_FXP_ATTRS = 105"

lemmas fxp_defs =
  SSH_FXP_INIT_def SSH_FXP_VERSION_def SSH_FXP_OPEN_def SSH_FXP_CLOSE_def SSH_FXP_READ_def
  SSH_FXP_WRITE_def SSH_FXP_LSTAT_def SSH_FXP_FSTAT_def SSH_FXP_SETSTAT_def SSH_FXP_OPENDIR_def
  SSH_FXP_READDIR_def SSH_FXP_REMOVE_def SSH_FXP_MKDIR_def SSH_FXP_RMDIR_def SSH_FXP_REALPATH_def
  SSH_FXP_STAT_def SSH_FXP_STATUS_def SSH_FXP_HANDLE_def SSH_FXP_DATA_def SSH_FXP_NAME_def
  SSH_FXP_ATTRS_def

definition SSH_FX_OK :: u32 where "SSH_FX_OK = 0"
definition SSH_FX_EOF :: u32 where "SSH_FX_EOF = 1"
definition SSH_FX_NO_SUCH_FILE :: u32 where "SSH_FX_NO_SUCH_FILE = 2"
definition SSH_FX_PERMISSION_DENIED :: u32 where "SSH_FX_PERMISSION_DENIED = 3"
definition SSH_FX_FAILURE :: u32 where "SSH_FX_FAILURE = 4"
definition SSH_FX_OP_UNSUPPORTED :: u32 where "SSH_FX_OP_UNSUPPORTED = 8"

definition SSH_FXF_READ :: u32 where "SSH_FXF_READ = 0x01"
definition SSH_FXF_WRITE :: u32 where "SSH_FXF_WRITE = 0x02"
definition SSH_FXF_APPEND :: u32 where "SSH_FXF_APPEND = 0x04"
definition SSH_FXF_CREAT :: u32 where "SSH_FXF_CREAT = 0x08"
definition SSH_FXF_TRUNC :: u32 where "SSH_FXF_TRUNC = 0x10"

definition SSH_FILEXFER_ATTR_SIZE :: u32 where "SSH_FILEXFER_ATTR_SIZE = 0x01"
definition SSH_FILEXFER_ATTR_UIDGID :: u32 where "SSH_FILEXFER_ATTR_UIDGID = 0x02"
definition SSH_FILEXFER_ATTR_PERMISSIONS :: u32 where "SSH_FILEXFER_ATTR_PERMISSIONS = 0x04"
definition SSH_FILEXFER_ATTR_ACMODTIME :: u32 where "SSH_FILEXFER_ATTR_ACMODTIME = 0x08"

lemmas attr_flag_defs =
  SSH_FILEXFER_ATTR_SIZE_def SSH_FILEXFER_ATTR_UIDGID_def SSH_FILEXFER_ATTR_PERMISSIONS_def
  SSH_FILEXFER_ATTR_ACMODTIME_def

definition SFTP_VERSION :: u32 where "SFTP_VERSION = 3"

section \<open>File attributes\<close>

record FileAttrs =
  flags :: u32
  attr_size :: "u64 option"
  uid :: "u32 option"
  gid :: "u32 option"
  permissions :: "u32 option"
  atime :: "u32 option"
  mtime :: "u32 option"

definition FileAttrs_default :: FileAttrs where
  "FileAttrs_default =
     \<lparr>flags = 0, attr_size = None, uid = None, gid = None, permissions = None, atime = None, mtime = None\<rparr>"

definition FileAttrs_encode :: "FileAttrs \<Rightarrow> bytes" where
  "FileAttrs_encode a =
     (let buf = write_u32 [] (flags a);
          buf = (case attr_size a of Some s \<Rightarrow> buf @ to_be_bytes_u64 s | None \<Rightarrow> buf);
          buf = (case (uid a, gid a) of
                   (Some u, Some g) \<Rightarrow> write_u32 (write_u32 buf u) g
                 | _ \<Rightarrow> buf);
          buf = (case permissions a of Some p \<Rightarrow> write_u32 buf p | None \<Rightarrow> buf);
          buf = (case (atime a, mtime a) of
                   (Some t, Some m) \<Rightarrow> write_u32 (write_u32 buf t) m
                 | _ \<Rightarrow> buf)
      in buf)"

text \<open>The four conditional parts of \<open>FileAttrs::decode\<close>, each on the attributes so far.\<close>

definition decode_size :: "u32 \<Rightarrow> FileAttrs \<Rightarrow> cursor \<Rightarrow> (FileAttrs \<times> cursor) outcome" where
  "decode_size fl a c =
     (if fl AND SSH_FILEXFER_ATTR_SIZE \<noteq> 0
      then and_then (ok_or (cur_read_u64 c) (Sftp ''Failed to read file size'')) (\<lambda>(s, c).
             Ok (a\<lparr>attr_size := Some s\<rparr>, c))
      else Ok (a, c))"

definition decode_owner :: "u32 \<Rightarrow> FileAttrs \<Rightarrow> cursor \<Rightarrow> (FileAttrs \<times> cursor) outcome" where
  "decode_owner fl a c =
     (if fl AND SSH_FILEXFER_ATTR_UIDGID \<noteq> 0
      then and_then (read_u32 c) (\<lambda>(u, c). and_then (read_u32 c) (\<lambda>(g, c).
             Ok (a\<lparr>uid := Some u, gid := Some g\<rparr>, c)))
      else Ok (a, c))"

definition decode_permissions :: "u32 \<Rightarrow> FileAttrs \<Rightarrow> cursor \<Rightarrow> (FileAttrs \<times> cursor) outcome" where
  "decode_permissions fl a c =
     (if fl AND SSH_FILEXFER_ATTR_PERMISSIONS \<noteq> 0
      then and_then (read_u32 c) (\<lambda>(p, c). Ok (a\<lparr>permissions := Some p\<rparr>, c))
      else Ok (a, c))"

definition decode_times :: "u32 \<Rightarrow> FileAttrs \<Rightarrow> cursor \<Rightarrow> (FileAttrs \<times> cursor) outcome" where
  "decode_times fl a c =
     (if fl AND SSH_FILEXFER_ATTR_ACMODTIME \<noteq> 0
      then and_then (read_u32 c) (\<lambda>(t, c). and_then (read_u32 c) (\<lambda>(m, c).
             Ok (a\<lparr>atime := Some t, mtime := Some m\<rparr>, c)))
      else Ok (a, c))"

definition FileAttrs_decode :: "cursor \<Rightarrow> (FileAttrs \<times> cursor) outcome" where
  "FileAttrs_decode c =
     and_then (read_u32 c) (\<lambda>(fl, c).
       let attrs = FileAttrs_default\<lparr>flags := fl\<rparr> in
       and_then (decode_size fl attrs c) (\<lambda>(attrs, c).
       and_then (decode_owner fl attrs c) (\<lambda>(attrs, c).
       and_then (decode_permissions fl attrs c) (\<lambda>(attrs, c).
         decode_times fl attrs c))))"

section \<open>Packets\<close>

record SftpPacket =
  packet_type :: u8
  request_id :: u32
  sftp_data :: bytes

definition SftpPacket_new :: "u8 \<Rightarrow> u32 \<Rightarrow> bytes \<Rightarrow> SftpPacket" where
  "SftpPacket_new t i d = \<lparr>packet_type = t, request_id = i, sftp_data = d\<rparr>"

definition SftpPacket_encode :: "SftpPacket \<Rightarrow> bytes" where
  "SftpPacket_encode p =
     (let inner_len = 1 + 4 + length (sftp_data p);
          buf = write_u32 [] (of_nat inner_len);
          buf = write_u8 buf (packet_type p);
          buf = write_u32 buf (request_id p)
      in buf @ sftp_data p)"

definition SftpPacket_decode :: "bytes \<Rightarrow> SftpPacket outcome" where
  "SftpPacket_decode d =
     (if length d < 5 then Err (Sftp ''SFTP packet too short'')
      else Ok \<lparr>packet_type = d ! 0, request_id = from_be_bytes_u32 [d ! 1, d ! 2, d ! 3, d ! 4],
               sftp_data = drop 5 d\<rparr>)"

definition build_sftp_init :: bytes where
  "build_sftp_init =
     (let buf = write_u32 [] (1 + 4);
          buf = write_u8 buf SSH_FXP_INIT
      in write_u32 buf SFTP_VERSION)"

definition build_sftp_version :: bytes where
  "build_sftp_version =
     (let buf = write_u32 [] (1 + 4);
          buf = write_u8 buf SSH_FXP_VERSION
      in write_u32 buf SFTP_VERSION)"

definition build_sftp_status :: "u32 \<Rightarrow> u32 \<Rightarrow> string \<Rightarrow> SftpPacket" where
  "build_sftp_status rid status_code message =
     (let d = write_u32 [] status_code;
          d = write_utf8 d message;
          d = write_utf8 d ''en''
      in SftpPacket_new SSH_FXP_STATUS rid d)"

definition build_sftp_handle :: "u32 \<Rightarrow> bytes \<Rightarrow> SftpPacket" where
  "build_sftp_handle rid handle = SftpPacket_new SSH_FXP_HANDLE rid (write_string [] handle)"

definition build_sftp_data :: "u32 \<Rightarrow> bytes \<Rightarrow> SftpPacket" where
  "build_sftp_data rid file_data = SftpPacket_new SSH_FXP_DATA rid (write_string [] file_data)"

definition write_entry :: "string \<times> FileAttrs \<Rightarrow> bytes \<Rightarrow> bytes" where
  "write_entry e d =
     (let d = write_utf8 d (fst e);
          d = write_utf8 d (fst e)
      in d @ FileAttrs_encode (snd e))"

definition build_sftp_name :: "u32 \<Rightarrow> (string \<times> FileAttrs) list \<Rightarrow> SftpPacket" where
  "build_sftp_name rid entries =
     (let d = write_u32 [] (of_nat (length entries))
      in SftpPacket_new SSH_FXP_NAME rid (fold write_entry entries d))"

definition build_sftp_attrs :: "u32 \<Rightarrow> FileAttrs \<Rightarrow> SftpPacket" where
  "build_sftp_attrs rid a = SftpPacket_new SSH_FXP_ATTRS rid (FileAttrs_encode a)"

lemmas sftp_builders =
  build_sftp_status_def build_sftp_handle_def build_sftp_data_def build_sftp_name_def
  build_sftp_attrs_def SftpPacket_new_def

section \<open>Attributes on the wire\<close>

text \<open>The flags tell which fields are present; user and group, and the two times, come in pairs.\<close>

definition attrs_ok :: "FileAttrs \<Rightarrow> bool" where
  "attrs_ok a \<longleftrightarrow>
     (flags a AND SSH_FILEXFER_ATTR_SIZE \<noteq> 0) = (attr_size a \<noteq> None) \<and>
     (flags a AND SSH_FILEXFER_ATTR_UIDGID \<noteq> 0) = (uid a \<noteq> None) \<and> (uid a = None) = (gid a = None) \<and>
     (flags a AND SSH_FILEXFER_ATTR_PERMISSIONS \<noteq> 0) = (permissions a \<noteq> None) \<and>
     (flags a AND SSH_FILEXFER_ATTR_ACMODTIME \<noteq> 0) = (atime a \<noteq> None) \<and> (atime a = None) = (mtime a = None)"

definition enc_opt :: "('a \<Rightarrow> bytes) \<Rightarrow> 'a option \<Rightarrow> bytes" where
  "enc_opt enc x = (case x of None \<Rightarrow> [] | Some v \<Rightarrow> enc v)"

definition enc_two :: "u32 option \<Rightarrow> u32 option \<Rightarrow> bytes" where
  "enc_two x y = (case (x, y) of (Some a, Some b) \<Rightarrow> to_be_bytes_u32 a @ to_be_bytes_u32 b | _ \<Rightarrow> [])"

lemma FileAttrs_encode_eq:
  "FileAttrs_encode a =
     to_be_bytes_u32 (flags a) @ enc_opt to_be_bytes_u64 (attr_size a) @ enc_two (uid a) (gid a) @
     enc_opt to_be_bytes_u32 (permissions a) @ enc_two (atime a) (mtime a)"
  by (simp add: FileAttrs_encode_def Let_def wire_simps enc_opt_def enc_two_def split: option.splits)

lemma cur_adv_0: "cur_adv 0 c = c"
  by (simp add: cur_adv_def)

lemma decode_size_at:
  assumes "(fl AND SSH_FILEXFER_ATTR_SIZE \<noteq> 0) = (s \<noteq> None)" and "attr_size a = None"
    and "cur_rest c = enc_opt to_be_bytes_u64 s @ rest"
  shows "decode_size fl a c = Ok (a\<lparr>attr_size := s\<rparr>, cur_adv (length (enc_opt to_be_bytes_u64 s)) c)"
  using assms by (cases a; cases s) (simp_all add: decode_size_def enc_opt_def cur_read_u64_at cur_adv_0)

lemma decode_owner_at:
  assumes "(fl AND SSH_FILEXFER_ATTR_UIDGID \<noteq> 0) = (u \<noteq> None)" and "(u = None) = (g = None)"
    and "uid a = None" and "gid a = None" and "cur_rest c = enc_two u g @ rest"
  shows "decode_owner fl a c = Ok (a\<lparr>uid := u, gid := g\<rparr>, cur_adv (length (enc_two u g)) c)"
  using assms by (cases a; cases u; cases g) (simp_all add: decode_owner_def enc_two_def wire_reads cur_adv_0)

lemma decode_permissions_at:
  assumes "(fl AND SSH_FILEXFER_ATTR_PERMISSIONS \<noteq> 0) = (p \<noteq> None)" and "permissions a = None"
    and "cur_rest c = enc_opt to_be_bytes_u32 p @ rest"
  shows "decode_permissions fl a c = Ok (a\<lparr>permissions := p\<rparr>, cur_adv (length (enc_opt to_be_bytes_u32 p)) c)"
  using assms by (cases a; cases p) (simp_all add: decode_permissions_def enc_opt_def wire_reads cur_adv_0)

lemma decode_times_at:
  assumes "(fl AND SSH_FILEXFER_ATTR_ACMODTIME \<noteq> 0) = (t \<noteq> None)" and "(t = None) = (m = None)"
    and "atime a = None" and "mtime a = None" and "cur_rest c = enc_two t m @ rest"
  shows "decode_times fl a c = Ok (a\<lparr>atime := t, mtime := m\<rparr>, cur_adv (length (enc_two t m)) c)"
  using assms by (cases a; cases t; cases m) (simp_all add: decode_times_def enc_two_def wire_reads cur_adv_0)

lemma FileAttrs_decode_at:
  assumes ok: "attrs_ok a" and c: "cur_rest c = FileAttrs_encode a @ rest"
  shows "FileAttrs_decode c = Ok (a, cur_adv (length (FileAttrs_encode a)) c)"
proof -
  have "cur_rest c = to_be_bytes_u32 (flags a) @ enc_opt to_be_bytes_u64 (attr_size a) @ enc_two (uid a) (gid a) @
      enc_opt to_be_bytes_u32 (permissions a) @ enc_two (atime a) (mtime a) @ rest"
    using c by (simp add: FileAttrs_encode_eq)
  with ok [unfolded attrs_ok_def] show ?thesis
    by (simp add: FileAttrs_decode_def FileAttrs_default_def decode_size_at decode_owner_at
        decode_permissions_at decode_times_at read_enc FileAttrs_encode_eq add.assoc)
qed

interpretation attrs_item: wire_item "\<lambda>buf a. buf @ FileAttrs_encode a" FileAttrs_decode attrs_ok
  by unfold_locales (auto intro: FileAttrs_decode_at)

section \<open>Properties of the messages\<close>

text \<open>C36. Attributes whose flags name exactly the fields that are present are decoded as they were
  encoded, anywhere in a buffer, and the decoder stops behind them.\<close>

theorem file_attrs_roundtrip:
  assumes "attrs_ok a"
  shows "FileAttrs_decode (cur_adv (length buf) (cursor_new (buf @ FileAttrs_encode a @ rest))) =
           Ok (a, cur_adv (length (buf @ FileAttrs_encode a)) (cursor_new (buf @ FileAttrs_encode a @ rest)))"
  using attrs_item.rd_behind [OF assms, of buf rest] by simp

theorem file_attrs_roundtrip_witness:
  "FileAttrs_decode (cur_adv (length ([] :: bytes)) (cursor_new ([] @ FileAttrs_encode
       (FileAttrs_default\<lparr>flags := 5, attr_size := Some 1024, permissions := Some 0x1ED\<rparr>) @ [7]))) =
     Ok (FileAttrs_default\<lparr>flags := 5, attr_size := Some 1024, permissions := Some 0x1ED\<rparr>,
         cur_adv (length ([] @ FileAttrs_encode
             (FileAttrs_default\<lparr>flags := 5, attr_size := Some 1024, permissions := Some 0x1ED\<rparr>)))
           (cursor_new ([] @ FileAttrs_encode
             (FileAttrs_default\<lparr>flags := 5, attr_size := Some 1024, permissions := Some 0x1ED\<rparr>) @ [7])))"
  by (rule file_attrs_roundtrip) (simp add: attrs_ok_def FileAttrs_default_def attr_flag_defs)

lemma decode_encoded:
  assumes "length (sftp_data p) + 5 < 2 ^ 32"
  shows "SftpPacket_decode (drop 4 (SftpPacket_encode p)) = Ok p \<and>
         unat (from_be_bytes_u32 (take 4 (SftpPacket_encode p))) = length (drop 4 (SftpPacket_encode p))"
proof -
  have e: "SftpPacket_encode p = to_be_bytes_u32 (of_nat (5 + length (sftp_data p))) @
      packet_type p # to_be_bytes_u32 (request_id p) @ sftp_data p"
    by (simp add: SftpPacket_encode_def wire_simps)
  obtain a b c d where be: "to_be_bytes_u32 (request_id p) = [a, b, c, d]"
    by (simp add: to_be_bytes_u32_eval)
  have "from_be_bytes_u32 [a, b, c, d] = request_id p" using from_to_be_bytes_u32 [of "request_id p"] be by simp
  moreover have "unat (of_nat (5 + length (sftp_data p)) :: u32) = 5 + length (sftp_data p)"
    using assms by (intro unat_of_nat_u32) simp
  ultimately show ?thesis using be by (simp add: e SftpPacket_decode_def)
qed

lemma length_encoded: "length (SftpPacket_encode p) = 9 + length (sftp_data p)"
  by (simp add: SftpPacket_encode_def wire_simps)

text \<open>C37. A file transfer packet is decoded as it was encoded, and its length prefix counts the
  bytes behind it (for packets below four gigabytes).\<close>

theorem sftp_packet_roundtrip:
  assumes "length (sftp_data p) + 5 < 2 ^ 32"
  shows "SftpPacket_decode (drop 4 (SftpPacket_encode p)) = Ok p \<and>
         unat (from_be_bytes_u32 (take 4 (SftpPacket_encode p))) = length (drop 4 (SftpPacket_encode p))"
  using assms by (rule decode_encoded)

theorem sftp_packet_roundtrip_witness:
  "SftpPacket_decode (drop 4 (SftpPacket_encode (SftpPacket_new SSH_FXP_OPEN 42 [1, 2, 3]))) =
     Ok (SftpPacket_new SSH_FXP_OPEN 42 [1, 2, 3])"
  using sftp_packet_roundtrip [of "SftpPacket_new SSH_FXP_OPEN 42 [1, 2, 3]"] by (simp add: SftpPacket_new_def)

end
