(* ===== verification/Sftp_Path.thy ===== *)
theory Sftp_Path
  imports Sftp_Protocol
begin

text \<open>
  Paths, as \<open>std::path\<close> has them on Unix, and the path resolution of \<open>src/sftp/mod.rs\<close>
  (\<open>resolve_path\<close>, \<open>normalize_path\<close>).

  A path is its sequence of bytes. \<open>canonicalize\<close> asks the file system and is an argument;
  the law \<open>canonical_paths\<close> is its documentation: the result is absolute and has no \<open>.\<close>, \<open>..\<close>
  or link left. Shown here: collecting the components of a normalized path gives a path with
  exactly those components, so a resolved path consists of the root and plain names behind
  it; and the lexical fallback for paths that do not exist follows no link, so a new file
  below a linked directory resolves inside the root although the directory is outside.
\<close>

section \<open>Paths of the standard library\<close>

datatype Component = RootDir | CurDir | ParentDir | Normal string

definition path_parts :: "string \<Rightarrow> string list" where
  "path_parts p = filter (\<lambda>s. s \<noteq> []) (split_on CHR ''/'' p)"

definition is_absolute :: "string \<Rightarrow> bool" where
  "is_absolute p \<longleftrightarrow> p \<noteq> [] \<and> hd p = CHR ''/''"

text \<open>\<open>Path::components\<close>: separators collapse, a \<open>.\<close> survives at the start of a relative path only.\<close>

definition components :: "string \<Rightarrow> Component list" where
  "components p =
     (let parts = path_parts p;
          lead = (if is_absolute p then [RootDir]
                  else if parts \<noteq> [] \<and> hd parts = ''.'' then [CurDir] else [])
      in lead @ map (\<lambda>s. if s = ''..'' then ParentDir else Normal s) (filter (\<lambda>s. s \<noteq> ''.'') parts))"

fun component_str :: "Component \<Rightarrow> string" where
  "component_str RootDir = ''/''"
| "component_str CurDir = ''.''"
| "component_str ParentDir = ''..''"
| "component_str (Normal s) = s"

text \<open>\<open>Path::join\<close>: an absolute path replaces the whole.\<close>

definition path_join :: "string \<Rightarrow> string \<Rightarrow> string" where
  "path_join p q =
     (if is_absolute q then q
      else if p \<noteq> [] \<and> last p \<noteq> CHR ''/'' then p @ ''/'' @ q
      else p @ q)"

text \<open>\<open>Path::starts_with\<close>, by components.\<close>

definition path_starts_with :: "string \<Rightarrow> string \<Rightarrow> bool" where
  "path_starts_with p base \<longleftrightarrow>
     take (length (components base)) (components p) = components base"

text \<open>\<open>Iterator::collect\<close> into a \<open>PathBuf\<close>.\<close>

definition path_collect :: "Component list \<Rightarrow> string" where
  "path_collect cs = fold (\<lambda>c p. path_join p (component_str c)) cs []"

section \<open>Path resolution\<close>

definition normalize_step :: "Component \<Rightarrow> Component list \<Rightarrow> Component list" where
  "normalize_step c acc =
     (case c of
        ParentDir \<Rightarrow> butlast acc
      | CurDir \<Rightarrow> acc
      | c \<Rightarrow> acc @ [c])"

definition normalize_path :: "string \<Rightarrow> string" where
  "normalize_path p = path_collect (fold normalize_step (components p) [])"

definition root_canonical :: "(string \<Rightarrow> io_error + string) \<Rightarrow> string \<Rightarrow> string" where
  "root_canonical canonicalize root =
     (case canonicalize root of Inr p \<Rightarrow> p | Inl _ \<Rightarrow> normalize_path root)"

definition resolve_path :: "(string \<Rightarrow> io_error + string) \<Rightarrow> string \<Rightarrow> string \<Rightarrow> string outcome" where
  "resolve_path canonicalize root requested =
     (let path = (if is_absolute requested then path_join root (tl requested) else path_join root requested);
          canonical = (case canonicalize path of Inr p \<Rightarrow> p | Inl _ \<Rightarrow> normalize_path path)
      in if \<not> path_starts_with canonical (root_canonical canonicalize root)
         then Err (Sftp ''Access denied: path outside root'')
         else Ok canonical)"

section \<open>Plain component lists\<close>

text \<open>A name of one directory entry, and a list of components without \<open>.\<close> and \<open>..\<close>.\<close>

definition plain_name :: "string \<Rightarrow> bool" where
  "plain_name s \<longleftrightarrow> s \<noteq> [] \<and> CHR ''/'' \<notin> set s \<and> s \<noteq> ''.'' \<and> s \<noteq> ''..''"

fun plain_comp :: "Component \<Rightarrow> bool" where
  "plain_comp (Normal s) = plain_name s"
| "plain_comp _ = False"

definition plain :: "Component list \<Rightarrow> bool" where
  "plain cs \<longleftrightarrow> list_all plain_comp cs \<or> (\<exists>cs'. cs = RootDir # cs' \<and> list_all plain_comp cs')"

lemma split_on_parts: "s \<in> set (split_on c p) \<Longrightarrow> c \<notin> set s"
proof (induction p arbitrary: s)
  case (Cons x p)
  then show ?case by (cases "split_on c p") (auto split: if_splits)
qed simp

lemma components_eq:
  obtains lead ss where "components p = lead @ map (\<lambda>s. if s = ''..'' then ParentDir else Normal s) ss"
    and "lead = (if is_absolute p then [RootDir] else []) \<or> (\<not> is_absolute p \<and> lead = [CurDir])"
    and "\<forall>s \<in> set ss. s = ''..'' \<or> plain_name s"
proof -
  let ?ss = "filter (\<lambda>s. s \<noteq> ''.'') (path_parts p)"
  have ss: "\<forall>s \<in> set ?ss. s = ''..'' \<or> plain_name s"
    by (auto simp: path_parts_def plain_name_def dest: split_on_parts)
  show ?thesis
    by (rule that [OF _ _ ss]) (auto simp: components_def Let_def)
qed

lemma plain_normalize_step:
  assumes "plain acc" and "c = ParentDir \<or> c = CurDir \<or> plain_comp c"
  shows "plain (normalize_step c acc)"
proof -
  have "plain (butlast acc)"
    using assms(1) by (cases acc) (auto simp: plain_def list_all_iff dest: in_set_butlastD)
  with assms show ?thesis by (cases c) (auto simp: normalize_step_def plain_def)
qed

lemma plain_normalize:
  "plain acc \<Longrightarrow> (\<And>c. c \<in> set cs \<Longrightarrow> c = ParentDir \<or> c = CurDir \<or> plain_comp c) \<Longrightarrow>
   plain (fold normalize_step cs acc)"
  by (induction cs arbitrary: acc) (simp_all add: plain_normalize_step)

lemma plain_normalized: "plain (fold normalize_step (components p) [])"
proof -
  obtain lead ss where cs: "components p = lead @ map (\<lambda>s. if s = ''..'' then ParentDir else Normal s) ss"
    and lead: "lead = (if is_absolute p then [RootDir] else []) \<or> (\<not> is_absolute p \<and> lead = [CurDir])"
    and ss: "\<forall>s \<in> set ss. s = ''..'' \<or> plain_name s"
    by (rule components_eq [of p])
  have "plain (fold normalize_step lead [])"
    using lead by (auto simp: normalize_step_def plain_def)
  then show ?thesis
    unfolding cs fold_append comp_def by (rule plain_normalize) (use ss in auto)
qed

section \<open>Collecting plain components\<close>

lemma plain_name_ends:
  assumes "plain_name s"
  shows "s \<noteq> []" and "hd s \<noteq> CHR ''/''" and "last s \<noteq> CHR ''/''"
  using assms hd_in_set [of s] last_in_set [of s] unfolding plain_name_def by metis+

lemma collect_behind:
  assumes "p \<noteq> []" and "last p \<noteq> CHR ''/''" and "list_all plain_name ss"
  shows "fold (\<lambda>c p. path_join p (component_str c)) (map Normal ss) p = p @ concat (map (\<lambda>s. CHR ''/'' # s) ss)"
  using assms
proof (induction ss arbitrary: p)
  case (Cons s ss)
  then have s: "s \<noteq> []" "hd s \<noteq> CHR ''/''" "last s \<noteq> CHR ''/''" by (simp_all add: plain_name_ends)
  then have "path_join p s = p @ CHR ''/'' # s"
    using Cons.prems by (simp add: path_join_def is_absolute_def)
  moreover have "last (p @ CHR ''/'' # s) \<noteq> CHR ''/''" using s by simp
  ultimately show ?case using Cons by simp
qed simp

lemma split_on_names:
  assumes "CHR ''/'' \<notin> set s" and "list_all plain_name ss"
  shows "split_on CHR ''/'' (s @ concat (map (\<lambda>s. CHR ''/'' # s) ss)) = s # ss"
  using assms
proof (induction ss arbitrary: s)
  case Nil
  then show ?case by (simp add: split_on_no_sep)
next
  case (Cons t ss)
  then have "CHR ''/'' \<notin> set t" by (simp add: plain_name_def)
  with Cons show ?case by (simp add: split_on_append_sep)
qed

lemma filter_plain:
  "list_all plain_name ss \<Longrightarrow> filter (\<lambda>s. s \<noteq> []) ss = ss"
  "list_all plain_name ss \<Longrightarrow> filter (\<lambda>s. s \<noteq> ''.'') ss = ss"
  "list_all plain_name ss \<Longrightarrow> map (\<lambda>s. if s = ''..'' then ParentDir else Normal s) ss = map Normal ss"
  by (induction ss) (auto simp: plain_name_def)

lemma components_relative:
  assumes "list_all plain_name (s # ss)"
  shows "components (s @ concat (map (\<lambda>s. CHR ''/'' # s) ss)) = map Normal (s # ss)"
proof -
  let ?p = "s @ concat (map (\<lambda>s. CHR ''/'' # s) ss)"
  have s: "s \<noteq> []" "CHR ''/'' \<notin> set s" "s \<noteq> ''.''" using assms by (auto simp: plain_name_def)
  then have parts: "path_parts ?p = s # ss"
    using assms split_on_names [of s ss] filter_plain(1) [of ss] by (simp add: path_parts_def)
  moreover have "\<not> is_absolute ?p" using s by (cases s) (auto simp: is_absolute_def)
  ultimately show ?thesis
    using assms s filter_plain(2,3) [of "s # ss"] by (simp add: components_def)
qed

lemma components_absolute:
  assumes "list_all plain_name ss"
  shows "components (concat (map (\<lambda>s. CHR ''/'' # s) ss)) = (if ss = [] then [] else RootDir # map Normal ss)"
proof -
  let ?p = "concat (map (\<lambda>s. CHR ''/'' # s) ss)"
  have parts: "path_parts ?p = ss"
    using assms split_on_names [of "[]" ss] filter_plain(1) [of ss] by (simp add: path_parts_def)
  have "is_absolute ?p \<longleftrightarrow> ss \<noteq> []" by (cases ss) (simp_all add: is_absolute_def)
  with parts show "components ?p = (if ss = [] then [] else RootDir # map Normal ss)"
    using assms filter_plain(2,3) [of ss] by (simp add: components_def)
qed

lemma components_slash: "components ''/'' = [RootDir]"
  by (simp add: components_def path_parts_def is_absolute_def)

lemma plain_map_Normal: "list_all plain_comp cs \<Longrightarrow> \<exists>ss. cs = map Normal ss \<and> list_all plain_name ss"
proof (induction cs)
  case (Cons c cs)
  then obtain s ss where "c = Normal s" "plain_name s" "cs = map Normal ss" "list_all plain_name ss"
    by (cases c) auto
  then show ?case by (intro exI [of _ "s # ss"]) simp
qed simp

lemma join_empty [simp]: "path_join [] q = q"
  by (simp add: path_join_def)

lemma components_collect:
  assumes "plain cs"
  shows "components (path_collect cs) = cs"
proof -
  consider (rel) ss where "cs = map Normal ss" "list_all plain_name ss"
    | (abs) ss where "cs = RootDir # map Normal ss" "list_all plain_name ss"
    using assms plain_map_Normal unfolding plain_def by blast
  then show ?thesis
  proof cases
    case rel
    show ?thesis
    proof (cases ss)
      case Nil
      with rel show ?thesis by (simp add: path_collect_def components_def path_parts_def is_absolute_def)
    next
      case (Cons s ss')
      with rel plain_name_ends [of s] have "path_collect cs = s @ concat (map (\<lambda>s. CHR ''/'' # s) ss')"
        by (simp add: path_collect_def collect_behind)
      with rel Cons show ?thesis by (simp add: components_relative del: list.map)
    qed
  next
    case abs
    show ?thesis
    proof (cases ss)
      case Nil
      with abs show ?thesis by (simp add: path_collect_def components_slash)
    next
      case (Cons s ss')
      with abs have s: "plain_name s" and "list_all plain_name ss'" by simp_all
      moreover from s have "path_join ''/'' s = CHR ''/'' # s"
        by (simp add: path_join_def is_absolute_def plain_name_ends)
      moreover from s have "last (CHR ''/'' # s) \<noteq> CHR ''/''" by (simp add: plain_name_ends)
      ultimately have "path_collect cs = concat (map (\<lambda>s. CHR ''/'' # s) ss)"
        using abs Cons by (simp add: path_collect_def collect_behind)
      with abs Cons show ?thesis by (simp add: components_absolute del: list.map concat.simps)
    qed
  qed
qed

lemma components_normalize: "plain (components (normalize_path p))"
  by (simp add: normalize_path_def components_collect plain_normalized)

section \<open>Properties of path resolution\<close>

text \<open>\<open>fs::canonicalize\<close> returns an absolute path without \<open>.\<close> and \<open>..\<close>.\<close>

definition canonical_paths :: "(string \<Rightarrow> io_error + string) \<Rightarrow> bool" where
  "canonical_paths canonicalize \<longleftrightarrow>
     (\<forall>p q. canonicalize p = Inr q \<longrightarrow> (\<exists>ss. components q = RootDir # map Normal ss \<and> list_all plain_name ss))"

text \<open>A root as a server is configured with: absolute, without \<open>.\<close> and \<open>..\<close>.\<close>

definition root_ok :: "string \<Rightarrow> bool" where
  "root_ok root \<longleftrightarrow> (\<exists>ss. components root = RootDir # map Normal ss \<and> list_all plain_name ss)"

lemma plain_rooted: "components q = RootDir # map Normal ss \<Longrightarrow> list_all plain_name ss \<Longrightarrow> plain (components q)"
  by (auto simp: plain_def list_all_iff)

lemma normalize_plain_fold:
  "list_all plain_comp cs \<Longrightarrow> fold normalize_step cs acc = acc @ cs"
proof (induction cs arbitrary: acc)
  case (Cons c cs)
  then show ?case by (cases c) (auto simp: normalize_step_def)
qed simp

lemma components_root_canonical:
  assumes "canonical_paths canonicalize" and "root_ok root"
  shows "\<exists>ss. components (root_canonical canonicalize root) = RootDir # map Normal ss \<and> list_all plain_name ss"
proof (cases "canonicalize root")
  case (Inl e)
  from assms(2) obtain ss where ss: "components root = RootDir # map Normal ss" "list_all plain_name ss"
    by (auto simp: root_ok_def)
  then have "fold normalize_step (components root) [] = components root"
    using normalize_plain_fold [of "map Normal ss" "[RootDir]"]
    by (simp add: normalize_step_def list_all_iff)
  moreover have "plain (components root)" using ss by (rule plain_rooted)
  ultimately show ?thesis
    using Inl ss by (auto simp: root_canonical_def normalize_path_def components_collect)
next
  case (Inr q)
  with assms(1) show ?thesis by (auto simp: root_canonical_def canonical_paths_def)
qed

lemma resolve_path_OkD:
  assumes "canonical_paths canonicalize" and "resolve_path canonicalize root req = Ok p"
  shows "plain (components p)" and "path_starts_with p (root_canonical canonicalize root)"
proof -
  from assms(2) obtain path where p: "p = (case canonicalize path of Inr q \<Rightarrow> q | Inl _ \<Rightarrow> normalize_path path)"
    and "path_starts_with p (root_canonical canonicalize root)"
    by (auto simp: resolve_path_def Let_def split: if_splits)
  then show "path_starts_with p (root_canonical canonicalize root)" by simp
  show "plain (components p)"
  proof (cases "canonicalize path")
    case (Inl e)
    with p show ?thesis by (simp add: components_normalize)
  next
    case (Inr q)
    with assms(1) obtain ss where "components q = RootDir # map Normal ss" "list_all plain_name ss"
      by (auto simp: canonical_paths_def)
    then have "plain (components q)" by (rule plain_rooted)
    with p Inr show ?thesis by simp
  qed
qed

text \<open>C19. Whatever a client requests, a resolved path is the root followed by plain directory
  names: it holds no \<open>..\<close> that could lead out again.\<close>

theorem resolve_path_confined:
  assumes "canonical_paths canonicalize" and "root_ok root" and "resolve_path canonicalize root req = Ok p"
  shows "\<exists>ss. components p = components (root_canonical canonicalize root) @ map Normal ss \<and> list_all plain_name ss"
proof -
  from assms(1,2) obtain rs where rs: "components (root_canonical canonicalize root) = RootDir # map Normal rs"
    using components_root_canonical by blast
  let ?n = "length (components (root_canonical canonicalize root))"
  have pl: "plain (components p)" and "take ?n (components p) = components (root_canonical canonicalize root)"
    using resolve_path_OkD [OF assms(1,3)] by (simp_all add: path_starts_with_def)
  then have eq: "components p = components (root_canonical canonicalize root) @ drop ?n (components p)"
    by (metis append_take_drop_id)
  moreover have "plain ((RootDir # map Normal rs) @ drop ?n (components p))" using pl eq rs by metis
  then have "list_all plain_comp (drop ?n (components p))"
    unfolding plain_def by (auto simp: list_all_iff)
  ultimately show ?thesis using plain_map_Normal by metis
qed

text \<open>A file system with the directories \<open>/srv\<close> and \<open>/etc\<close> and the link \<open>/srv/link\<close> to \<open>/etc\<close>.\<close>

definition demo_canon :: "string \<Rightarrow> io_error + string" where
  "demo_canon p =
     (if components p = components ''/srv'' then Inr ''/srv''
      else if components p = components ''/srv/link'' then Inr ''/etc''
      else Inl (IoOther ''not found''))"

lemma demo_canonical_paths: "canonical_paths demo_canon"
proof -
  have "components ''/srv'' = RootDir # map Normal [''srv'']" "components ''/etc'' = RootDir # map Normal [''etc'']"
    by code_simp+
  moreover have "list_all plain_name [''srv'']" "list_all plain_name [''etc'']" by (simp_all add: plain_name_def)
  ultimately show ?thesis unfolding canonical_paths_def demo_canon_def by (metis Inl_Inr_False sum.inject(2))
qed

lemma demo_root_ok: "root_ok ''/srv''"
proof -
  have "components ''/srv'' = RootDir # map Normal [''srv'']" by code_simp
  moreover have "list_all plain_name [''srv'']" by (simp add: plain_name_def)
  ultimately show ?thesis unfolding root_ok_def by blast
qed

theorem resolve_path_confined_witness:
  "resolve_path demo_canon ''/srv'' ''/a/../b'' = Ok ''/srv/b'' \<and>
   (\<exists>ss. components ''/srv/b'' = components (root_canonical demo_canon ''/srv'') @ map Normal ss)"
proof -
  have r: "resolve_path demo_canon ''/srv'' ''/a/../b'' = Ok ''/srv/b''" by code_simp
  with resolve_path_confined [OF demo_canonical_paths demo_root_ok r] show ?thesis by blast
qed

text \<open>A request that climbs above the root is denied, and so is one that names an absolute path
  behind a doubled slash.\<close>

theorem traversal_denied:
  "resolve_path demo_canon ''/srv'' ''../../etc/passwd'' = Err (Sftp ''Access denied: path outside root'') \<and>
   resolve_path demo_canon ''/srv'' ''//etc/passwd'' = Err (Sftp ''Access denied: path outside root'')"
  by code_simp

text \<open>The fallback for paths that do not exist resolves no link: below a linked directory that
  leads out of the root, an existing path is denied but a new file is let through, although its
  parent directory lies outside.\<close>

theorem link_escape:
  "resolve_path demo_canon ''/srv'' ''link'' = Err (Sftp ''Access denied: path outside root'') \<and>
   resolve_path demo_canon ''/srv'' ''link/new'' = Ok ''/srv/link/new'' \<and>
   demo_canon ''/srv/link'' = Inr ''/etc''"
  by code_simp

end
