(* ===== verification/Sftp.thy ===== *)
theory Sftp
  imports Sftp_Path
begin

unbundle bit_operations_syntax

text \<open>
  The server side of the file transfer subsystem in \<open>src/sftp/mod.rs\<close>: the table of open
  handles and one definition per request handler.

  The file system is \<open>std::fs\<close>: the operations the handlers call are a record \<open>fs_ops\<close> over a
  file system state; what a file object knows (its path and position) is its own type. A
  handler maps the pair of the handle table and the file system to a response and the new
  pair. \<open>ok_val\<close> is \<open>Result::ok\<close>: the handlers answer every error of a reader or of the path
  resolution with a status of their own.

  Shown here: every request is answered under its own identifier; handles are fresh and
  never shared between files and directories; every path a handle stands for lies below the
  root, and requests change the file system below the root only; a closed handle is dead.
\<close>

section \<open>The file system\<close>

record Metadata =
  meta_len :: u64
  meta_mode :: u32
  meta_uid :: u32
  meta_gid :: u32

record ('f, 'h) fs_ops =
  canonicalize :: "'f \<Rightarrow> string \<Rightarrow> io_error + string"
  metadata :: "'f \<Rightarrow> string \<Rightarrow> io_error + Metadata"
  is_dir :: "'f \<Rightarrow> string \<Rightarrow> bool"
  read_dir :: "'f \<Rightarrow> string \<Rightarrow> io_error + (io_error + string \<times> (io_error + Metadata)) list"
  file_open :: "'f \<Rightarrow> string \<Rightarrow> io_error + 'h"
  file_seek :: "'f \<Rightarrow> 'h \<Rightarrow> u64 \<Rightarrow> io_error + 'h"
  file_read :: "'f \<Rightarrow> 'h \<Rightarrow> nat \<Rightarrow> io_error + bytes"
  open_for_write :: "'f \<Rightarrow> string \<Rightarrow> bool \<Rightarrow> bool \<Rightarrow> (io_error + 'h) \<times> 'f"
  file_write_all :: "'f \<Rightarrow> 'h \<Rightarrow> bytes \<Rightarrow> (io_error + unit) \<times> 'f"
  create_dir :: "'f \<Rightarrow> string \<Rightarrow> (io_error + unit) \<times> 'f"
  remove_dir :: "'f \<Rightarrow> string \<Rightarrow> (io_error + unit) \<times> 'f"
  remove_file :: "'f \<Rightarrow> string \<Rightarrow> (io_error + unit) \<times> 'f"

definition metadata_to_attrs :: "Metadata \<Rightarrow> FileAttrs" where
  "metadata_to_attrs meta =
     (let fl = SSH_FILEXFER_ATTR_SIZE OR SSH_FILEXFER_ATTR_PERMISSIONS;
          attrs = FileAttrs_default\<lparr>flags := fl, attr_size := Some (meta_len meta),
                    permissions := Some (meta_mode meta)\<rparr>;
          attrs = attrs\<lparr>uid := Some (meta_uid meta)\<rparr>;
          attrs = attrs\<lparr>gid := Some (meta_gid meta)\<rparr>
      in attrs\<lparr>flags := flags attrs OR SSH_FILEXFER_ATTR_UIDGID\<rparr>)"

section \<open>Handles\<close>

record SftpHandler =
  next_handle :: u32
  open_files :: "bytes \<rightharpoonup> string \<times> u32"
  open_dirs :: "bytes \<rightharpoonup> string \<times> bool"
  sftp_root :: string

definition SftpHandler_new :: "string \<Rightarrow> SftpHandler" where
  "SftpHandler_new root =
     \<lparr>next_handle = 0, open_files = Map.empty, open_dirs = Map.empty, sftp_root = root\<rparr>"

definition alloc_handle :: "bool \<Rightarrow> (SftpHandler, bytes) stateful" where
  "alloc_handle chk h =
     (let handle = to_be_bytes_u32 (next_handle h) in
      case add_u32 chk (next_handle h) 1 of
        Ok n \<Rightarrow> (Ok handle, h\<lparr>next_handle := n\<rparr>)
      | Err e \<Rightarrow> (Err e, h)
      | Panic \<Rightarrow> (Panic, h))"

text \<open>A new handle that stands for a file or a directory.\<close>

definition open_file_handle :: "bool \<Rightarrow> string \<Rightarrow> u32 \<Rightarrow> (SftpHandler, bytes) stateful" where
  "open_file_handle chk resolved fl =
     bind_st (alloc_handle chk) (\<lambda>handle h.
       (Ok handle, h\<lparr>open_files := (open_files h)(handle \<mapsto> (resolved, fl))\<rparr>))"

definition open_dir_handle :: "bool \<Rightarrow> string \<Rightarrow> (SftpHandler, bytes) stateful" where
  "open_dir_handle chk resolved =
     bind_st (alloc_handle chk) (\<lambda>handle h.
       (Ok handle, h\<lparr>open_dirs := (open_dirs h)(handle \<mapsto> (resolved, False))\<rparr>))"

fun ok_val :: "'a outcome \<Rightarrow> 'a option" where
  "ok_val (Ok x) = Some x"
| "ok_val (Err e) = None"
| "ok_val Panic = None"

type_synonym ('f) sftp_handling = "(SftpHandler \<times> 'f, SftpPacket) stateful"

definition resolve :: "('f, 'h) fs_ops \<Rightarrow> SftpHandler \<times> 'f \<Rightarrow> string \<Rightarrow> string option" where
  "resolve X s req = ok_val (resolve_path (canonicalize X (snd s)) (sftp_root (fst s)) req)"

section \<open>Requests on paths\<close>

definition handle_realpath :: "('f, 'h) fs_ops \<Rightarrow> SftpPacket \<Rightarrow> 'f sftp_handling" where
  "handle_realpath X pkt s =
     (case ok_val (read_utf8 (cursor_new (sftp_data pkt))) of
        None \<Rightarrow> (Ok (build_sftp_status (request_id pkt) SSH_FX_FAILURE ''Bad path''), s)
      | Some (path_str, _) \<Rightarrow>
          (case resolve X s path_str of
             None \<Rightarrow> (Ok (build_sftp_status (request_id pkt) SSH_FX_NO_SUCH_FILE ''Not found''), s)
           | Some resolved \<Rightarrow>
               (let name = from_utf8_lossy (as_bytes resolved)
                in (Ok (build_sftp_name (request_id pkt) [(name, FileAttrs_default)]), s))))"

definition handle_stat :: "('f, 'h) fs_ops \<Rightarrow> SftpPacket \<Rightarrow> 'f sftp_handling" where
  "handle_stat X pkt s =
     (case ok_val (read_utf8 (cursor_new (sftp_data pkt))) of
        None \<Rightarrow> (Ok (build_sftp_status (request_id pkt) SSH_FX_FAILURE ''Bad path''), s)
      | Some (path_str, _) \<Rightarrow>
          (case resolve X s path_str of
             None \<Rightarrow> (Ok (build_sftp_status (request_id pkt) SSH_FX_NO_SUCH_FILE ''Not found''), s)
           | Some resolved \<Rightarrow>
               (case metadata X (snd s) resolved of
                  Inr meta \<Rightarrow> (Ok (build_sftp_attrs (request_id pkt) (metadata_to_attrs meta)), s)
                | Inl _ \<Rightarrow> (Ok (build_sftp_status (request_id pkt) SSH_FX_NO_SUCH_FILE ''Not found''), s))))"

definition handle_opendir :: "bool \<Rightarrow> ('f, 'h) fs_ops \<Rightarrow> SftpPacket \<Rightarrow> 'f sftp_handling" where
  "handle_opendir chk X pkt s =
     (case ok_val (read_utf8 (cursor_new (sftp_data pkt))) of
        None \<Rightarrow> (Ok (build_sftp_status (request_id pkt) SSH_FX_FAILURE ''Bad path''), s)
      | Some (path_str, _) \<Rightarrow>
          (case resolve X s path_str of
             None \<Rightarrow> (Ok (build_sftp_status (request_id pkt) SSH_FX_NO_SUCH_FILE ''Not found''), s)
           | Some resolved \<Rightarrow>
               (if \<not> is_dir X (snd s) resolved
                then (Ok (build_sftp_status (request_id pkt) SSH_FX_NO_SUCH_FILE ''Not a directory''), s)
                else (case open_dir_handle chk resolved (fst s) of
                        (Ok handle, h) \<Rightarrow> (Ok (build_sftp_handle (request_id pkt) handle), (h, snd s))
                      | (Err e, h) \<Rightarrow> (Err e, (h, snd s))
                      | (Panic, h) \<Rightarrow> (Panic, (h, snd s))))))"

definition handle_open :: "bool \<Rightarrow> ('f, 'h) fs_ops \<Rightarrow> SftpPacket \<Rightarrow> 'f sftp_handling" where
  "handle_open chk X pkt s =
     (case ok_val (read_utf8 (cursor_new (sftp_data pkt))) of
        None \<Rightarrow> (Ok (build_sftp_status (request_id pkt) SSH_FX_FAILURE ''Bad path''), s)
      | Some (path_str, c) \<Rightarrow>
          (case ok_val (read_u32 c) of
             None \<Rightarrow> (Ok (build_sftp_status (request_id pkt) SSH_FX_FAILURE ''Bad flags''), s)
           | Some (fl, c) \<Rightarrow>
               (let attrs = ok_val (FileAttrs_decode c) in
                case resolve X s path_str of
                  None \<Rightarrow> (Ok (build_sftp_status (request_id pkt) SSH_FX_NO_SUCH_FILE ''Path error''), s)
                | Some resolved \<Rightarrow>
                    (case open_file_handle chk resolved fl (fst s) of
                       (Ok handle, h) \<Rightarrow> (Ok (build_sftp_handle (request_id pkt) handle), (h, snd s))
                     | (Err e, h) \<Rightarrow> (Err e, (h, snd s))
                     | (Panic, h) \<Rightarrow> (Panic, (h, snd s))))))"

text \<open>The three requests that change one path and report the result.\<close>

definition handle_mkdir :: "('f, 'h) fs_ops \<Rightarrow> SftpPacket \<Rightarrow> 'f sftp_handling" where
  "handle_mkdir X pkt s =
     (case ok_val (read_utf8 (cursor_new (sftp_data pkt))) of
        None \<Rightarrow> (Ok (build_sftp_status (request_id pkt) SSH_FX_FAILURE ''Bad path''), s)
      | Some (path_str, _) \<Rightarrow>
          (case resolve X s path_str of
             None \<Rightarrow> (Ok (build_sftp_status (request_id pkt) SSH_FX_PERMISSION_DENIED ''Bad path''), s)
           | Some resolved \<Rightarrow>
               (case create_dir X (snd s) resolved of
                  (Inr _, f) \<Rightarrow> (Ok (build_sftp_status (request_id pkt) SSH_FX_OK ''OK''), (fst s, f))
                | (Inl _, f) \<Rightarrow> (Ok (build_sftp_status (request_id pkt) SSH_FX_FAILURE ''mkdir failed''), (fst s, f)))))"

definition handle_rmdir :: "('f, 'h) fs_ops \<Rightarrow> SftpPacket \<Rightarrow> 'f sftp_handling" where
  "handle_rmdir X pkt s =
     (case ok_val (read_utf8 (cursor_new (sftp_data pkt))) of
        None \<Rightarrow> (Ok (build_sftp_status (request_id pkt) SSH_FX_FAILURE ''Bad path''), s)
      | Some (path_str, _) \<Rightarrow>
          (case resolve X s path_str of
             None \<Rightarrow> (Ok (build_sftp_status (request_id pkt) SSH_FX_PERMISSION_DENIED ''Bad path''), s)
           | Some resolved \<Rightarrow>
               (case remove_dir X (snd s) resolved of
                  (Inr _, f) \<Rightarrow> (Ok (build_sftp_status (request_id pkt) SSH_FX_OK ''OK''), (fst s, f))
                | (Inl _, f) \<Rightarrow> (Ok (build_sftp_status (request_id pkt) SSH_FX_FAILURE ''rmdir failed''), (fst s, f)))))"

definition handle_remove :: "('f, 'h) fs_ops \<Rightarrow> SftpPacket \<Rightarrow> 'f sftp_handling" where
  "handle_remove X pkt s =
     (case ok_val (read_utf8 (cursor_new (sftp_data pkt))) of
        None \<Rightarrow> (Ok (build_sftp_status (request_id pkt) SSH_FX_FAILURE ''Bad path''), s)
      | Some (path_str, _) \<Rightarrow>
          (case resolve X s path_str of
             None \<Rightarrow> (Ok (build_sftp_status (request_id pkt) SSH_FX_PERMISSION_DENIED ''Bad path''), s)
           | Some resolved \<Rightarrow>
               (case remove_file X (snd s) resolved of
                  (Inr _, f) \<Rightarrow> (Ok (build_sftp_status (request_id pkt) SSH_FX_OK ''OK''), (fst s, f))
                | (Inl _, f) \<Rightarrow> (Ok (build_sftp_status (request_id pkt) SSH_FX_FAILURE ''remove failed''), (fst s, f)))))"

section \<open>Requests on handles\<close>

text \<open>\<open>entries.flatten()\<close> skips the entries that could not be read; attributes that could not be
  read are the default ones.\<close>

definition dir_names :: "(io_error + string \<times> (io_error + Metadata)) list \<Rightarrow> (string \<times> FileAttrs) list" where
  "dir_names entries =
     List.map_filter
       (\<lambda>e. case e of
          Inl _ \<Rightarrow> None
        | Inr (name, meta) \<Rightarrow>
            Some (from_utf8_lossy (as_bytes name),
                  case meta of Inr m \<Rightarrow> metadata_to_attrs m | Inl _ \<Rightarrow> FileAttrs_default))
       entries"

definition handle_readdir :: "('f, 'h) fs_ops \<Rightarrow> SftpPacket \<Rightarrow> 'f sftp_handling" where
  "handle_readdir X pkt s =
     (case ok_val (read_string (cursor_new (sftp_data pkt))) of
        None \<Rightarrow> (Ok (build_sftp_status (request_id pkt) SSH_FX_FAILURE ''Bad handle''), s)
      | Some (handle, _) \<Rightarrow>
          (case open_dirs (fst s) handle of
             None \<Rightarrow> (Ok (build_sftp_status (request_id pkt) SSH_FX_FAILURE ''Invalid handle''), s)
           | Some (path, already_listed) \<Rightarrow>
               (if already_listed
                then (Ok (build_sftp_status (request_id pkt) SSH_FX_EOF ''End of directory''), s)
                else let h = (fst s)\<lparr>open_dirs := (open_dirs (fst s))(handle \<mapsto> (path, True))\<rparr> in
                     (case read_dir X (snd s) path of
                        Inr entries \<Rightarrow> (Ok (build_sftp_name (request_id pkt) (dir_names entries)), (h, snd s))
                      | Inl _ \<Rightarrow>
                          (Ok (build_sftp_status (request_id pkt) SSH_FX_PERMISSION_DENIED ''Cannot read dir''),
                           (h, snd s))))))"

definition handle_close :: "SftpPacket \<Rightarrow> 'f sftp_handling" where
  "handle_close pkt s =
     (case ok_val (read_string (cursor_new (sftp_data pkt))) of
        None \<Rightarrow> (Ok (build_sftp_status (request_id pkt) SSH_FX_FAILURE ''Bad handle''), s)
      | Some (handle, _) \<Rightarrow>
          (let h = fst s;
               h = h\<lparr>open_files := (open_files h)(handle := None)\<rparr>;
               h = h\<lparr>open_dirs := (open_dirs h)(handle := None)\<rparr>
           in (Ok (build_sftp_status (request_id pkt) SSH_FX_OK ''OK''), (h, snd s))))"

definition handle_read :: "('f, 'h) fs_ops \<Rightarrow> SftpPacket \<Rightarrow> 'f sftp_handling" where
  "handle_read X pkt s =
     (case ok_val (read_string (cursor_new (sftp_data pkt))) of
        None \<Rightarrow> (Ok (build_sftp_status (request_id pkt) SSH_FX_FAILURE ''Bad handle''), s)
      | Some (handle, c) \<Rightarrow>
     (case cur_read_u64 c of
        None \<Rightarrow> (Ok (build_sftp_status (request_id pkt) SSH_FX_FAILURE ''Bad offset''), s)
      | Some (offset, c) \<Rightarrow>
     (case ok_val (read_u32 c) of
        None \<Rightarrow> (Ok (build_sftp_status (request_id pkt) SSH_FX_FAILURE ''Bad length''), s)
      | Some (len, c) \<Rightarrow>
     (case open_files (fst s) handle of
        None \<Rightarrow> (Ok (build_sftp_status (request_id pkt) SSH_FX_FAILURE ''Invalid handle''), s)
      | Some (path, fl) \<Rightarrow>
     (case file_open X (snd s) path of
        Inl _ \<Rightarrow> (Ok (build_sftp_status (request_id pkt) SSH_FX_NO_SUCH_FILE ''Cannot open''), s)
      | Inr file \<Rightarrow>
     (case file_seek X (snd s) file offset of
        Inl _ \<Rightarrow> (Ok (build_sftp_status (request_id pkt) SSH_FX_FAILURE ''Seek failed''), s)
      | Inr file \<Rightarrow>
     (case file_read X (snd s) file (min (unat len) 32768) of
        Inl _ \<Rightarrow> (Ok (build_sftp_status (request_id pkt) SSH_FX_FAILURE ''Read error''), s)
      | Inr buf \<Rightarrow>
          if buf = [] then (Ok (build_sftp_status (request_id pkt) SSH_FX_EOF ''EOF''), s)
          else (Ok (build_sftp_data (request_id pkt) buf), s))))))))"

definition handle_write :: "('f, 'h) fs_ops \<Rightarrow> SftpPacket \<Rightarrow> 'f sftp_handling" where
  "handle_write X pkt s =
     (case ok_val (read_string (cursor_new (sftp_data pkt))) of
        None \<Rightarrow> (Ok (build_sftp_status (request_id pkt) SSH_FX_FAILURE ''Bad handle''), s)
      | Some (handle, c) \<Rightarrow>
     (case cur_read_u64 c of
        None \<Rightarrow> (Ok (build_sftp_status (request_id pkt) SSH_FX_FAILURE ''Bad offset''), s)
      | Some (offset, c) \<Rightarrow>
     (case ok_val (read_string c) of
        None \<Rightarrow> (Ok (build_sftp_status (request_id pkt) SSH_FX_FAILURE ''Bad data''), s)
      | Some (d, c) \<Rightarrow>
     (case open_files (fst s) handle of
        None \<Rightarrow> (Ok (build_sftp_status (request_id pkt) SSH_FX_FAILURE ''Invalid handle''), s)
      | Some (path, fl) \<Rightarrow>
     (if fl AND SSH_FXF_WRITE = 0
      then (Ok (build_sftp_status (request_id pkt) SSH_FX_PERMISSION_DENIED ''Not opened for writing''), s)
      else
     (case open_for_write X (snd s) path (fl AND SSH_FXF_CREAT \<noteq> 0) (fl AND SSH_FXF_TRUNC \<noteq> 0) of
        (Inl _, f) \<Rightarrow> (Ok (build_sftp_status (request_id pkt) SSH_FX_PERMISSION_DENIED ''Cannot open''), (fst s, f))
      | (Inr file, f) \<Rightarrow>
     (case file_seek X f file offset of
        Inl _ \<Rightarrow> (Ok (build_sftp_status (request_id pkt) SSH_FX_FAILURE ''Seek failed''), (fst s, f))
      | Inr file \<Rightarrow>
     (case file_write_all X f file d of
        (Inr _, f) \<Rightarrow> (Ok (build_sftp_status (request_id pkt) SSH_FX_OK ''OK''), (fst s, f))
      | (Inl _, f) \<Rightarrow> (Ok (build_sftp_status (request_id pkt) SSH_FX_FAILURE ''Write error''), (fst s, f))))))))))"

section \<open>Dispatch\<close>

definition handle_request :: "bool \<Rightarrow> ('f, 'h) fs_ops \<Rightarrow> SftpPacket \<Rightarrow> 'f sftp_handling" where
  "handle_request chk X pkt =
     (if packet_type pkt = SSH_FXP_REALPATH then handle_realpath X pkt
      else if packet_type pkt = SSH_FXP_STAT \<or> packet_type pkt = SSH_FXP_LSTAT then handle_stat X pkt
      else if packet_type pkt = SSH_FXP_OPENDIR then handle_opendir chk X pkt
      else if packet_type pkt = SSH_FXP_READDIR then handle_readdir X pkt
      else if packet_type pkt = SSH_FXP_CLOSE then handle_close pkt
      else if packet_type pkt = SSH_FXP_OPEN then handle_open chk X pkt
      else if packet_type pkt = SSH_FXP_READ then handle_read X pkt
      else if packet_type pkt = SSH_FXP_WRITE then handle_write X pkt
      else if packet_type pkt = SSH_FXP_MKDIR then handle_mkdir X pkt
      else if packet_type pkt = SSH_FXP_RMDIR then handle_rmdir X pkt
      else if packet_type pkt = SSH_FXP_REMOVE then handle_remove X pkt
      else return_st (build_sftp_status (request_id pkt) SSH_FX_OP_UNSUPPORTED ''Unsupported operation''))"

lemmas handler_defs =
  handle_realpath_def handle_stat_def handle_opendir_def handle_readdir_def handle_close_def
  handle_open_def handle_read_def handle_write_def handle_mkdir_def handle_rmdir_def handle_remove_def

section \<open>What a request can do\<close>

definition answers :: "SftpPacket \<Rightarrow> SftpPacket \<Rightarrow> bool" where
  "answers pkt resp \<longleftrightarrow> request_id resp = request_id pkt \<and>
     packet_type resp \<in> {SSH_FXP_STATUS, SSH_FXP_HANDLE, SSH_FXP_DATA, SSH_FXP_NAME, SSH_FXP_ATTRS}"

lemma answers_builders [simp]:
  "answers pkt (build_sftp_status (request_id pkt) code msg)"
  "answers pkt (build_sftp_handle (request_id pkt) hnd)"
  "answers pkt (build_sftp_data (request_id pkt) d)"
  "answers pkt (build_sftp_name (request_id pkt) es)"
  "answers pkt (build_sftp_attrs (request_id pkt) a)"
  by (simp_all add: answers_def sftp_builders)

text \<open>The effects of all handlers, as one relation between the state before, the outcome and the
  state after: nothing changes, a handle is opened, listed or closed, or the file system changes
  at a resolved path or through a file opened for writing.\<close>

inductive effect ::
  "bool \<Rightarrow> ('f, 'h) fs_ops \<Rightarrow> SftpPacket \<Rightarrow> SftpHandler \<times> 'f \<Rightarrow> SftpPacket outcome \<Rightarrow> SftpHandler \<times> 'f \<Rightarrow> bool"
  for chk :: bool and X :: "('f, 'h) fs_ops" and pkt :: SftpPacket and s :: "SftpHandler \<times> 'f" where
  unchanged: "answers pkt resp \<Longrightarrow> effect chk X pkt s (Ok resp) s"
| file_opened: "resolve X s req = Some p \<Longrightarrow> open_file_handle chk p fl (fst s) = (Ok hnd, h) \<Longrightarrow>
    effect chk X pkt s (Ok (build_sftp_handle (request_id pkt) hnd)) (h, snd s)"
| dir_opened: "resolve X s req = Some p \<Longrightarrow> open_dir_handle chk p (fst s) = (Ok hnd, h) \<Longrightarrow>
    effect chk X pkt s (Ok (build_sftp_handle (request_id pkt) hnd)) (h, snd s)"
| exhausted: "chk \<Longrightarrow> next_handle (fst s) = 0xFFFFFFFF \<Longrightarrow> effect chk X pkt s Panic s"
| listed: "open_dirs (fst s) hnd = Some (p, False) \<Longrightarrow> answers pkt resp \<Longrightarrow>
    effect chk X pkt s (Ok resp) ((fst s)\<lparr>open_dirs := (open_dirs (fst s))(hnd \<mapsto> (p, True))\<rparr>, snd s)"
| closed: "answers pkt resp \<Longrightarrow>
    effect chk X pkt s (Ok resp) ((fst s)\<lparr>open_files := (open_files (fst s))(hnd := None),
      open_dirs := (open_dirs (fst s))(hnd := None)\<rparr>, snd s)"
| path_changed: "resolve X s req = Some p \<Longrightarrow> op \<in> {create_dir X, remove_dir X, remove_file X} \<Longrightarrow>
    op (snd s) p = (r', f) \<Longrightarrow> answers pkt resp \<Longrightarrow> effect chk X pkt s (Ok resp) (fst s, f)"
| write_opened: "open_files (fst s) hnd = Some (p, fl) \<Longrightarrow> fl AND SSH_FXF_WRITE \<noteq> 0 \<Longrightarrow>
    open_for_write X (snd s) p cr tr = (r'', f) \<Longrightarrow> answers pkt resp \<Longrightarrow> effect chk X pkt s (Ok resp) (fst s, f)"
| written: "open_files (fst s) hnd = Some (p, fl) \<Longrightarrow> fl AND SSH_FXF_WRITE \<noteq> 0 \<Longrightarrow>
    open_for_write X (snd s) p cr tr = (Inr file, f) \<Longrightarrow> file_seek X f file off = Inr file' \<Longrightarrow>
    file_write_all X f file' d = (r', f') \<Longrightarrow> answers pkt resp \<Longrightarrow> effect chk X pkt s (Ok resp) (fst s, f')"

lemma alloc_handle_cases:
  "alloc_handle chk h =
     (if chk \<and> next_handle h = 0xFFFFFFFF then (Panic, h)
      else (Ok (to_be_bytes_u32 (next_handle h)), h\<lparr>next_handle := next_handle h + 1\<rparr>))"
proof -
  have "2 ^ 32 \<le> unat (next_handle h) + unat (1 :: u32) \<longleftrightarrow> next_handle h = 0xFFFFFFFF"
    using unsigned_less [of "next_handle h", where ?'a = nat]
    by (simp add: word_unat_eq_iff [of _ "0xFFFFFFFF"]) linarith
  then show ?thesis by (simp add: alloc_handle_def add_u32_def Let_def)
qed

lemma open_handle_cases:
  "open_file_handle chk p fl h =
     (if chk \<and> next_handle h = 0xFFFFFFFF then (Panic, h)
      else (Ok (to_be_bytes_u32 (next_handle h)),
            h\<lparr>next_handle := next_handle h + 1, open_files := (open_files h)(to_be_bytes_u32 (next_handle h) \<mapsto> (p, fl))\<rparr>))"
  "open_dir_handle chk p h =
     (if chk \<and> next_handle h = 0xFFFFFFFF then (Panic, h)
      else (Ok (to_be_bytes_u32 (next_handle h)),
            h\<lparr>next_handle := next_handle h + 1, open_dirs := (open_dirs h)(to_be_bytes_u32 (next_handle h) \<mapsto> (p, False))\<rparr>))"
  by (simp_all add: open_file_handle_def open_dir_handle_def bind_st_def alloc_handle_cases)

lemma open_handle_outcomes:
  "open_file_handle chk p fl h \<noteq> (Err e, h')"
  "open_dir_handle chk p h \<noteq> (Err e, h')"
  "open_file_handle chk p fl h = (Panic, h') \<Longrightarrow> chk \<and> next_handle h = 0xFFFFFFFF \<and> h' = h"
  "open_dir_handle chk p h = (Panic, h') \<Longrightarrow> chk \<and> next_handle h = 0xFFFFFFFF \<and> h' = h"
  by (simp_all add: open_handle_cases split: if_splits)

lemma effect_reading:
  "effect chk X pkt s (fst (handle_realpath X pkt s)) (snd (handle_realpath X pkt s))"
  "effect chk X pkt s (fst (handle_stat X pkt s)) (snd (handle_stat X pkt s))"
  "effect chk X pkt s (fst (handle_read X pkt s)) (snd (handle_read X pkt s))"
  by (auto simp: handler_defs Let_def intro!: effect.unchanged split: option.splits prod.splits sum.splits)

lemma effect_opening:
  "effect chk X pkt s (fst (handle_opendir chk X pkt s)) (snd (handle_opendir chk X pkt s))"
  "effect chk X pkt s (fst (handle_open chk X pkt s)) (snd (handle_open chk X pkt s))"
  by (auto simp: handler_defs Let_def open_handle_outcomes(1,2)
      intro: effect.unchanged effect.file_opened effect.dir_opened effect.exhausted
      dest!: open_handle_outcomes(3,4) split: option.splits prod.splits outcome.splits)

lemma effect_handles:
  "effect chk X pkt s (fst (handle_readdir X pkt s)) (snd (handle_readdir X pkt s))"
  "effect chk X pkt s (fst (handle_close pkt s)) (snd (handle_close pkt s))"
  by (auto simp: handler_defs Let_def intro: effect.unchanged effect.listed effect.closed
      split: option.splits prod.splits sum.splits)

lemma effect_paths:
  "effect chk X pkt s (fst (handle_mkdir X pkt s)) (snd (handle_mkdir X pkt s))"
  "effect chk X pkt s (fst (handle_rmdir X pkt s)) (snd (handle_rmdir X pkt s))"
  "effect chk X pkt s (fst (handle_remove X pkt s)) (snd (handle_remove X pkt s))"
  by (auto simp: handler_defs
      intro: effect.unchanged effect.path_changed [where op = "create_dir X"]
        effect.path_changed [where op = "remove_dir X"] effect.path_changed [where op = "remove_file X"]
      split: option.splits prod.splits sum.splits)

lemma effect_write:
  "effect chk X pkt s (fst (handle_write X pkt s)) (snd (handle_write X pkt s))"
  by (auto simp: handler_defs intro: effect.unchanged effect.write_opened effect.written
      split: option.splits prod.splits sum.splits)

lemma handle_request_effect:
  assumes "handle_request chk X pkt s = (r, s')"
  shows "effect chk X pkt s r s'"
proof -
  have "effect chk X pkt s (fst (handle_request chk X pkt s)) (snd (handle_request chk X pkt s))"
    unfolding handle_request_def
    by (simp add: effect_reading effect_opening effect_handles effect_paths effect_write
        return_st_def effect.unchanged)
  with assms show ?thesis by simp
qed

section \<open>The table of handles\<close>

definition handle_ids :: "SftpHandler \<Rightarrow> bytes set" where
  "handle_ids h = dom (open_files h) \<union> dom (open_dirs h)"

lemma handle_key_inj:
  "m < 2 ^ 32 \<Longrightarrow> n < 2 ^ 32 \<Longrightarrow> to_be_bytes_u32 (of_nat m) = to_be_bytes_u32 (of_nat n) \<Longrightarrow> m = n"
  by (metis to_be_bytes_u32_inject u32_of_nat_inj)

lemma next_handle_below:
  assumes "unat (next_handle h) + 1 < 2 ^ 32"
  shows "next_handle h \<noteq> 0xFFFFFFFF" and "unat (next_handle h + 1) = unat (next_handle h) + 1"
  using assms add_u32_one [of "next_handle h" True] by auto

interpretation file_handles: id_alloc "open_file_handle chk p fl" handle_ids "\<lambda>h. unat (next_handle h)"
    "\<lambda>n. to_be_bytes_u32 (of_nat n)" "2 ^ 32" for chk p fl
proof
  show "m = n" if "m < 2 ^ 32" "n < 2 ^ 32" "to_be_bytes_u32 (of_nat m) = to_be_bytes_u32 (of_nat n)" for m n
    using that by (rule handle_key_inj)
  show "\<exists>s'. open_file_handle chk p fl s = (Ok (to_be_bytes_u32 (of_nat (unat (next_handle s)))), s') \<and>
          unat (next_handle s') = unat (next_handle s) + 1 \<and>
          handle_ids s' = insert (to_be_bytes_u32 (of_nat (unat (next_handle s)))) (handle_ids s)"
    if "unat (next_handle s) + 1 < 2 ^ 32" for s
    using next_handle_below [OF that] by (simp add: open_handle_cases handle_ids_def)
qed

interpretation dir_handles: id_alloc "open_dir_handle chk p" handle_ids "\<lambda>h. unat (next_handle h)"
    "\<lambda>n. to_be_bytes_u32 (of_nat n)" "2 ^ 32" for chk p
proof
  show "m = n" if "m < 2 ^ 32" "n < 2 ^ 32" "to_be_bytes_u32 (of_nat m) = to_be_bytes_u32 (of_nat n)" for m n
    using that by (rule handle_key_inj)
  show "\<exists>s'. open_dir_handle chk p s = (Ok (to_be_bytes_u32 (of_nat (unat (next_handle s)))), s') \<and>
          unat (next_handle s') = unat (next_handle s) + 1 \<and>
          handle_ids s' = insert (to_be_bytes_u32 (of_nat (unat (next_handle s)))) (handle_ids s)"
    if "unat (next_handle s) + 1 < 2 ^ 32" for s
    using next_handle_below [OF that] by (simp add: open_handle_cases handle_ids_def)
qed

definition ids_below :: "SftpHandler \<Rightarrow> bool" where
  "ids_below h \<longleftrightarrow> handle_ids h \<subseteq> (\<lambda>n. to_be_bytes_u32 (of_nat n)) ` {..<unat (next_handle h)}"

lemma ids_below_iff: "file_handles.below h \<longleftrightarrow> ids_below h"
proof -
  have "unat (next_handle h) < 2 ^ 32" using unsigned_less [of "next_handle h", where ?'a = nat] by simp
  then show ?thesis unfolding file_handles.below_def ids_below_def by blast
qed

lemma ids_below_open:
  assumes "ids_below h" and "unat (next_handle h) + 1 < 2 ^ 32"
  shows "to_be_bytes_u32 (next_handle h) \<notin> handle_ids h"
    and "open_file_handle chk p fl h = (r', h') \<Longrightarrow> ids_below h'"
    and "open_dir_handle chk p h = (r', h') \<Longrightarrow> ids_below h'"
proof -
  have below: "file_handles.below h" using assms(1) by (simp only: ids_below_iff)
  show "to_be_bytes_u32 (next_handle h) \<notin> handle_ids h"
    using file_handles.key_fresh [OF below] by simp
  from below assms(2) obtain h1 where "open_file_handle chk p fl h = (Ok (to_be_bytes_u32 (of_nat (unat (next_handle h)))), h1)"
    and "file_handles.below h1" by (rule file_handles.alloc_fresh)
  then show "open_file_handle chk p fl h = (r', h') \<Longrightarrow> ids_below h'" unfolding ids_below_iff by simp
  from below assms(2) obtain h2 where "open_dir_handle chk p h = (Ok (to_be_bytes_u32 (of_nat (unat (next_handle h)))), h2)"
    and "file_handles.below h2" by (rule dir_handles.alloc_fresh)
  then show "open_dir_handle chk p h = (r', h') \<Longrightarrow> ids_below h'" unfolding ids_below_iff by simp
qed

text \<open>What the theorems below assume of the file system: canonical paths are canonical, and the
  root keeps its canonical name.\<close>

definition stable_root :: "('f, 'h) fs_ops \<Rightarrow> string \<Rightarrow> string \<Rightarrow> bool" where
  "stable_root X root r \<longleftrightarrow>
     (\<forall>f. canonical_paths (canonicalize X f) \<and> root_canonical (canonicalize X f) root = r)"

definition below_root :: "string \<Rightarrow> string \<Rightarrow> bool" where
  "below_root r p \<longleftrightarrow> plain (components p) \<and> path_starts_with p r"

definition handle_paths :: "SftpHandler \<Rightarrow> string set" where
  "handle_paths h = fst ` ran (open_files h) \<union> fst ` ran (open_dirs h)"

definition paths_below :: "string \<Rightarrow> string \<Rightarrow> SftpHandler \<Rightarrow> bool" where
  "paths_below root r h \<longleftrightarrow> sftp_root h = root \<and> (\<forall>p \<in> handle_paths h. below_root r p)"

definition tables_ok :: "SftpHandler \<Rightarrow> bool" where
  "tables_ok h \<longleftrightarrow> ids_below h \<and> dom (open_files h) \<inter> dom (open_dirs h) = {}"

lemma resolve_below:
  assumes "stable_root X root r" and "sftp_root (fst s) = root" and "resolve X s req = Some p"
  shows "below_root r p"
proof -
  have laws: "canonical_paths (canonicalize X (snd s))" "root_canonical (canonicalize X (snd s)) root = r"
    using assms(1) by (simp_all add: stable_root_def)
  have "resolve_path (canonicalize X (snd s)) root req = Ok p"
    using assms(2,3) by (cases "resolve_path (canonicalize X (snd s)) root req") (simp_all add: resolve_def)
  from resolve_path_OkD [OF laws(1) this] laws(2) show ?thesis by (simp add: below_root_def)
qed

lemma handler_ok_new: "paths_below root r (SftpHandler_new root)" "tables_ok (SftpHandler_new root)"
  by (simp_all add: paths_below_def tables_ok_def SftpHandler_new_def ids_below_def handle_ids_def handle_paths_def)

lemma handle_paths_iff:
  "p \<in> handle_paths h \<longleftrightarrow> (\<exists>k fl. open_files h k = Some (p, fl)) \<or> (\<exists>k d. open_dirs h k = Some (p, d))"
  by (force simp: handle_paths_def ran_def)

lemma handle_paths_open:
  "open_file_handle chk p fl h = (Ok hnd, h') \<Longrightarrow> sftp_root h' = sftp_root h \<and> handle_paths h' \<subseteq> insert p (handle_paths h)"
  "open_dir_handle chk p h = (Ok hnd, h') \<Longrightarrow> sftp_root h' = sftp_root h \<and> handle_paths h' \<subseteq> insert p (handle_paths h)"
  by (auto simp: open_handle_cases handle_paths_iff split: if_splits)

lemma paths_below_mono:
  "paths_below root r h \<Longrightarrow> sftp_root h' = sftp_root h \<Longrightarrow> handle_paths h' \<subseteq> insert p (handle_paths h) \<Longrightarrow>
   below_root r p \<or> p \<in> handle_paths h \<Longrightarrow> paths_below root r h'"
  by (auto simp: paths_below_def)

text \<open>Whatever the counter does, the paths behind the handles stay below the root.\<close>

lemma effect_paths_below:
  assumes "effect chk X pkt s res s'" and "stable_root X root r" and "paths_below root r (fst s)"
  shows "paths_below root r (fst s')"
proof -
  have root: "sftp_root (fst s) = root" using assms(3) by (simp add: paths_below_def)
  let ?h = "fst s"
  show ?thesis using assms(1)
  proof cases
    case (file_opened req p fl hnd h)
    then have "below_root r p" by (intro resolve_below [OF assms(2) root])
    with file_opened handle_paths_open paths_below_mono [OF assms(3)] show ?thesis by (metis fst_conv)
  next
    case (dir_opened req p hnd h)
    then have "below_root r p" by (intro resolve_below [OF assms(2) root])
    with dir_opened handle_paths_open paths_below_mono [OF assms(3)] show ?thesis by (metis fst_conv)
  next
    case (listed hnd p resp)
    have "p \<in> handle_paths ?h" using listed(3) by (auto simp: handle_paths_iff)
    moreover have "handle_paths (fst s') \<subseteq> insert p (handle_paths ?h)"
      using listed(2) by (auto simp: handle_paths_iff split: if_splits)
    ultimately show ?thesis using listed paths_below_mono [OF assms(3)] by auto
  next
    case (closed resp hnd)
    have "handle_paths (fst s') \<subseteq> handle_paths ?h"
      using closed(2) by (fastforce simp: handle_paths_iff split: if_splits)
    with closed assms(3) show ?thesis by (auto simp: paths_below_def)
  qed (use assms(3) in simp_all)
qed

text \<open>While the counter does not overflow, the tables are disjoint and the next handle is free.\<close>

lemma tables_ok_open:
  assumes ok: "tables_ok h" and lim: "unat (next_handle h) + 1 < 2 ^ 32"
  shows "open_file_handle chk p fl h = (r', h') \<Longrightarrow> tables_ok h'"
    and "open_dir_handle chk p h = (r', h') \<Longrightarrow> tables_ok h'"
proof -
  have below: "ids_below h" and disj: "dom (open_files h) \<inter> dom (open_dirs h) = {}"
    using ok by (simp_all add: tables_ok_def)
  note next_id = next_handle_below(1) [OF lim]
  let ?k = "to_be_bytes_u32 (next_handle h)"
  have "?k \<notin> handle_ids h" by (rule ids_below_open(1) [OF below lim])
  then have "insert ?k (dom (open_files h)) \<inter> dom (open_dirs h) = {}" "dom (open_files h) \<inter> insert ?k (dom (open_dirs h)) = {}"
    using disj by (auto simp: handle_ids_def)
  then show "open_file_handle chk p fl h = (r', h') \<Longrightarrow> tables_ok h'"
    and "open_dir_handle chk p h = (r', h') \<Longrightarrow> tables_ok h'"
    using ids_below_open(2,3) [OF below lim] next_id by (clarsimp simp: tables_ok_def open_handle_cases)+
qed

lemma tables_ok_shrink:
  assumes "tables_ok h" and "next_handle h' = next_handle h"
    and "dom (open_files h') \<subseteq> dom (open_files h)" and "dom (open_dirs h') \<subseteq> dom (open_dirs h)"
  shows "tables_ok h'"
proof -
  have "handle_ids h' \<subseteq> handle_ids h" using assms(3,4) by (auto simp: handle_ids_def)
  moreover have "dom (open_files h') \<inter> dom (open_dirs h') \<subseteq> dom (open_files h) \<inter> dom (open_dirs h)"
    using assms(3,4) by blast
  ultimately show ?thesis using assms(1,2) unfolding tables_ok_def ids_below_def by auto
qed

lemma effect_tables_ok:
  assumes "effect chk X pkt s res s'" and "tables_ok (fst s)" and "unat (next_handle (fst s)) + 1 < 2 ^ 32"
  shows "tables_ok (fst s')"
  using assms(1)
proof cases
  case (file_opened req p fl hnd h)
  then show ?thesis using tables_ok_open(1) [OF assms(2,3)] by simp
next
  case (dir_opened req p hnd h)
  then show ?thesis using tables_ok_open(2) [OF assms(2,3)] by simp
next
  case (listed hnd p resp)
  then show ?thesis by (intro tables_ok_shrink [OF assms(2)]) auto
next
  case (closed resp hnd)
  then show ?thesis by (intro tables_ok_shrink [OF assms(2)]) auto
qed (use assms(2) in simp_all)

section \<open>Reachable states and the file system outside the root\<close>

text \<open>The states a subsystem reaches from a new handler by any sequence of requests, as long as
  the counter of handles does not overflow.\<close>

inductive sftp_reachable :: "bool \<Rightarrow> ('f, 'h) fs_ops \<Rightarrow> string \<Rightarrow> 'f \<Rightarrow> SftpHandler \<times> 'f \<Rightarrow> bool"
  for chk :: bool and X :: "('f, 'h) fs_ops" and root :: string and f0 :: 'f where
  start: "sftp_reachable chk X root f0 (SftpHandler_new root, f0)"
| request: "sftp_reachable chk X root f0 s \<Longrightarrow> unat (next_handle (fst s)) + 1 < 2 ^ 32 \<Longrightarrow>
    handle_request chk X pkt s = (r, s') \<Longrightarrow> sftp_reachable chk X root f0 s'"

lemma sftp_reachable_ok:
  assumes "sftp_reachable chk X root f0 s"
  shows "tables_ok (fst s)" and "stable_root X root r \<Longrightarrow> paths_below root r (fst s)"
proof -
  show "tables_ok (fst s)" using assms
    by induction (auto simp: handler_ok_new intro: effect_tables_ok [OF handle_request_effect])
  show "stable_root X root r \<Longrightarrow> paths_below root r (fst s)" using assms
    by induction (auto simp: handler_ok_new intro: effect_paths_below [OF handle_request_effect])
qed

text \<open>Operations that change the file system change it at their path and below only: \<open>view\<close> is what
  can be observed at a path, \<open>hp\<close> the path a file object was opened with. This holds of a file
  system without links below the root.\<close>

definition confined_fs :: "('f, 'h) fs_ops \<Rightarrow> ('f \<Rightarrow> string \<Rightarrow> 'v) \<Rightarrow> ('h \<Rightarrow> string) \<Rightarrow> bool" where
  "confined_fs X view hp \<longleftrightarrow>
     (\<forall>op \<in> {create_dir X, remove_dir X, remove_file X}. \<forall>f p q.
        \<not> path_starts_with q p \<longrightarrow> view (snd (op f p)) q = view f q) \<and>
     (\<forall>f p cr tr q. \<not> path_starts_with q p \<longrightarrow> view (snd (open_for_write X f p cr tr)) q = view f q) \<and>
     (\<forall>f p cr tr h. fst (open_for_write X f p cr tr) = Inr h \<longrightarrow> hp h = p) \<and>
     (\<forall>f h off h'. file_seek X f h off = Inr h' \<longrightarrow> hp h' = hp h) \<and>
     (\<forall>f h d q. \<not> path_starts_with q (hp h) \<longrightarrow> view (snd (file_write_all X f h d)) q = view f q)"

lemma path_starts_with_trans:
  "path_starts_with q p \<Longrightarrow> path_starts_with p r \<Longrightarrow> path_starts_with q r"
  unfolding path_starts_with_def by (metis append_take_drop_id append_eq_conv_conj append.assoc)

lemma effect_confined:
  assumes "effect chk X pkt s res s'" and "stable_root X root r" and "paths_below root r (fst s)"
    and fs: "confined_fs X view hp" and q: "\<not> path_starts_with q r"
  shows "view (snd s') q = view (snd s) q"
proof -
  have root: "sftp_root (fst s) = root" and paths: "\<forall>p \<in> handle_paths (fst s). below_root r p"
    using assms(3) by (simp_all add: paths_below_def)
  have outside: "\<not> path_starts_with q p" if "below_root r p" for p
    using that q path_starts_with_trans by (auto simp: below_root_def)
  have at_root: "below_root r p" if "open_files (fst s) hnd = Some (p, fl)" for hnd p fl
  proof -
    have "p \<in> fst ` ran (open_files (fst s))" using that by (force simp: ran_def)
    with paths show ?thesis by (simp add: handle_paths_def)
  qed
  show ?thesis using assms(1)
  proof cases
    case (path_changed req p op r' f resp)
    then have "\<not> path_starts_with q p" using outside resolve_below [OF assms(2) root] by blast
    with path_changed fs show ?thesis unfolding confined_fs_def by (metis snd_conv)
  next
    case (write_opened hnd p fl cr tr r'' f resp)
    then have "\<not> path_starts_with q p" using outside at_root by blast
    with write_opened fs show ?thesis unfolding confined_fs_def by (metis snd_conv)
  next
    case (written hnd p fl cr tr fo f off fo' d r' f' resp)
    then have p: "\<not> path_starts_with q p" using outside at_root by blast
    have "hp fo' = p" using written fs unfolding confined_fs_def by (metis fst_conv)
    with p written fs have "view f' q = view f q" unfolding confined_fs_def by (metis snd_conv)
    moreover have "view f q = view (snd s) q" using p written fs unfolding confined_fs_def by (metis snd_conv)
    ultimately show ?thesis using written by simp
  qed simp_all
qed

section \<open>A file system to evaluate the handlers with\<close>

text \<open>Files by their paths, the directory \<open>/srv\<close>, no links; a file object is a path and a position.\<close>

definition put_at :: "bytes \<Rightarrow> nat \<Rightarrow> bytes \<Rightarrow> bytes" where
  "put_at old pos d =
     (if d = [] then old
      else take pos (old @ replicate (pos - length old) 0) @ d @ drop (pos + length d) old)"

definition demo_fs :: "(string \<rightharpoonup> bytes, string \<times> nat) fs_ops" where
  "demo_fs =
     \<lparr>canonicalize = (\<lambda>f p. let q = normalize_path p in
        if is_absolute q \<and> (f q \<noteq> None \<or> q = ''/srv'') then Inr q else Inl (IoOther ''not found'')),
      metadata = (\<lambda>f p. case f p of None \<Rightarrow> Inl (IoOther ''not found'')
        | Some d \<Rightarrow> Inr \<lparr>meta_len = of_nat (length d), meta_mode = 0x1A4, meta_uid = 0, meta_gid = 0\<rparr>),
      is_dir = (\<lambda>f p. p = ''/srv''),
      read_dir = (\<lambda>f p. Inr []),
      file_open = (\<lambda>f p. if f p = None then Inl (IoOther ''not found'') else Inr (p, 0)),
      file_seek = (\<lambda>f h off. Inr (fst h, unat off)),
      file_read = (\<lambda>f h n. case f (fst h) of None \<Rightarrow> Inr [] | Some d \<Rightarrow> Inr (take n (drop (snd h) d))),
      open_for_write = (\<lambda>f p cr tr.
        if f p = None \<and> \<not> cr then (Inl (IoOther ''not found''), f)
        else (Inr (p, 0), if f p = None \<or> tr then f(p \<mapsto> []) else f)),
      file_write_all = (\<lambda>f h d. (Inr (),
        f(fst h \<mapsto> put_at (case f (fst h) of None \<Rightarrow> [] | Some old \<Rightarrow> old) (snd h) d))),
      create_dir = (\<lambda>f p. (Inr (), f(p \<mapsto> []))),
      remove_dir = (\<lambda>f p. (Inr (), f(p := None))),
      remove_file = (\<lambda>f p. (Inr (), f(p := None)))\<rparr>"

lemma absolute_plain:
  assumes "is_absolute q" and "plain (components q)"
  shows "\<exists>ss. components q = RootDir # map Normal ss \<and> list_all plain_name ss"
proof -
  have "RootDir \<in> set (components q)" using assms(1) by (simp add: components_def)
  with assms(2) obtain cs where "components q = RootDir # cs" "list_all plain_comp cs"
    by (auto simp: plain_def list_all_iff)
  with plain_map_Normal show ?thesis by blast
qed

lemma demo_stable_root: "stable_root demo_fs ''/srv'' ''/srv''"
proof -
  have "normalize_path ''/srv'' = ''/srv''" "is_absolute ''/srv''" by code_simp+
  then show ?thesis
    using absolute_plain components_normalize
    by (auto simp: stable_root_def demo_fs_def canonical_paths_def root_canonical_def Let_def split: if_splits)
qed

lemma demo_confined_fs: "confined_fs demo_fs (\<lambda>f. f) fst"
  by (auto simp: confined_fs_def demo_fs_def path_starts_with_def)

section \<open>Properties of the file transfer subsystem\<close>

text \<open>C31. Every request is answered with one response of a response type that carries the identifier
  of the request; the only exception is the panic of a build with overflow checks when the counter
  of handles is exhausted.\<close>

theorem requests_answered:
  "(\<exists>resp s'. handle_request chk X pkt s = (Ok resp, s') \<and> answers pkt resp) \<or>
   (handle_request chk X pkt s = (Panic, s) \<and> chk \<and> next_handle (fst s) = 0xFFFFFFFF)"
proof -
  obtain r s' where hr: "handle_request chk X pkt s = (r, s')" by (cases "handle_request chk X pkt s")
  from handle_request_effect [OF hr] hr show ?thesis by cases auto
qed


definition demo_open :: SftpPacket where
  "demo_open = SftpPacket_new SSH_FXP_OPEN 1 (write_u32 (write_utf8 [] ''new'') 0x1A)"

lemma new_ok: "str_ok ''new''"
proof -
  have "ascii_str ''new''" by code_simp
  then show ?thesis by (simp add: str_ok_def valid_str_ascii MAX_PACKET_SIZE_def)
qed

lemma demo_open_result:
  "handle_request True demo_fs demo_open (SftpHandler_new ''/srv'', Map.empty) =
     (Ok (build_sftp_handle 1 [0, 0, 0, 0]),
      ((SftpHandler_new ''/srv'')\<lparr>next_handle := 1, open_files := [[0, 0, 0, 0] \<mapsto> (''/srv/new'', 0x1A)]\<rparr>, Map.empty))"
proof -
  have "resolve demo_fs (SftpHandler_new ''/srv'', Map.empty) ''new'' = Some ''/srv/new''" by code_simp
  moreover have "to_be_bytes_u32 0 = [0, 0, 0, 0]" by (simp add: to_be_bytes_u32_eval)
  ultimately show ?thesis
    using new_ok
    by (simp add: handle_request_def demo_open_def SftpPacket_new_def fxp_defs handle_open_def wire_simps wire_reads
        open_handle_cases Let_def) (simp add: SftpHandler_new_def)
qed

lemma demo_reachable:
  "sftp_reachable True demo_fs ''/srv'' Map.empty
     ((SftpHandler_new ''/srv'')\<lparr>next_handle := 1, open_files := [[0, 0, 0, 0] \<mapsto> (''/srv/new'', 0x1A)]\<rparr>, Map.empty)"
  by (rule sftp_reachable.request [OF sftp_reachable.start _ demo_open_result]) (simp add: SftpHandler_new_def)


text \<open>C32. A closed handle is dead: after a close request every read, write or directory listing with
  that handle is answered \<open>Invalid handle\<close> and changes nothing.\<close>

theorem closed_handle_invalid:
  assumes "blob_ok hnd" and "sftp_data cl = write_string [] hnd" and "handle_close cl s = (r, s')"
    and "sftp_data rd = write_u32 (write_string [] hnd @ to_be_bytes_u64 off) n"
    and "sftp_data wr = write_string (write_string [] hnd @ to_be_bytes_u64 off) d" and "blob_ok d"
    and "sftp_data ls = write_string [] hnd"
  shows "handle_read X rd s' = (Ok (build_sftp_status (request_id rd) SSH_FX_FAILURE ''Invalid handle''), s') \<and>
         handle_write X wr s' = (Ok (build_sftp_status (request_id wr) SSH_FX_FAILURE ''Invalid handle''), s') \<and>
         handle_readdir X ls s' = (Ok (build_sftp_status (request_id ls) SSH_FX_FAILURE ''Invalid handle''), s')"
proof -
  have "open_files (fst s') hnd = None" "open_dirs (fst s') hnd = None"
    using assms(1-3) by (auto simp: handle_close_def wire_simps wire_reads Let_def)
  with assms show ?thesis
    by (simp add: handle_read_def handle_write_def handle_readdir_def wire_simps wire_reads cur_read_u64_at)
qed

theorem closed_handle_invalid_witness:
  "handle_readdir demo_fs (SftpPacket_new SSH_FXP_READDIR 9 (write_string [] [0, 0, 0, 0]))
     (snd (handle_close (SftpPacket_new SSH_FXP_CLOSE 8 (write_string [] [0, 0, 0, 0])) (SftpHandler_new ''/srv'', Map.empty))) =
   (Ok (build_sftp_status 9 SSH_FX_FAILURE ''Invalid handle''),
    snd (handle_close (SftpPacket_new SSH_FXP_CLOSE 8 (write_string [] [0, 0, 0, 0])) (SftpHandler_new ''/srv'', Map.empty)))"
proof -
  let ?h = "[0, 0, 0, 0] :: bytes"
  let ?cl = "SftpPacket_new SSH_FXP_CLOSE 8 (write_string [] ?h)"
  have ok: "blob_ok ?h" "blob_ok []" by (simp_all add: blob_ok_def MAX_PACKET_SIZE_def)
  note all = closed_handle_invalid [where cl = ?cl and s = "(SftpHandler_new ''/srv'', Map.empty)" and X = demo_fs
      and rd = "SftpPacket_new SSH_FXP_READ 9 (write_u32 (write_string [] ?h @ to_be_bytes_u64 0) 5)"
      and wr = "SftpPacket_new SSH_FXP_WRITE 9 (write_string (write_string [] ?h @ to_be_bytes_u64 0) [])"
      and ls = "SftpPacket_new SSH_FXP_READDIR 9 (write_string [] ?h)", OF ok(1) _ prod.collapse [symmetric] _ _ ok(2)]
  then show ?thesis by (simp add: SftpPacket_new_def)
qed

text \<open>What \<open>Read::read\<close> promises: at most as many bytes as the buffer holds.\<close>

definition reads_bounded :: "('f, 'h) fs_ops \<Rightarrow> bool" where
  "reads_bounded X \<longleftrightarrow> (\<forall>f h n d. file_read X f h n = Inr d \<longrightarrow> length d \<le> n)"

lemma length_encode: "length (SftpPacket_encode p) = 9 + length (sftp_data p)"
  by (simp add: SftpPacket_encode_def)

text \<open>C33. However much a client asks for, the channel data message with the response to a read request has a
  payload of at most 34986 bytes, the most that one encrypted packet can carry.\<close>

theorem read_reply_fits:
  assumes "reads_bounded X" and "handle_read X pkt s = (Ok resp, s')"
  shows "length (payload (build_channel_data rid (SftpPacket_encode resp))) \<le> 34986"
proof -
  have status: "length (SftpPacket_encode (build_sftp_status i code msg)) = 23 + length msg" for i code msg
    by (simp add: length_encode sftp_builders)
  have d: "length (SftpPacket_encode (build_sftp_data i buf)) \<le> 32781" if "length buf \<le> 32768" for i buf
    using that by (simp add: length_encode sftp_builders)
  have read: "length buf \<le> 32768" if "file_read X f h (min n 32768) = Inr buf" for f h n buf
    using that assms(1) unfolding reads_bounded_def by fastforce
  have "length (SftpPacket_encode resp) \<le> 32781"
    using assms(2)
    by (auto simp: handle_read_def status split: option.splits prod.splits sum.splits if_splits dest!: read intro!: d)
  then show ?thesis by (simp add: build_channel_data_def SshPacket_new_def)
qed

theorem read_reply_fits_witness:
  "length (payload (build_channel_data 0 (SftpPacket_encode
     (build_sftp_status 3 SSH_FX_FAILURE ''Bad handle'')))) \<le> 34986"
proof (rule read_reply_fits)
  show "reads_bounded demo_fs" by (auto simp: reads_bounded_def demo_fs_def split: option.splits)
  show "handle_read demo_fs (SftpPacket_new SSH_FXP_READ 3 []) (SftpHandler_new ''/srv'', Map.empty) =
    (Ok (build_sftp_status 3 SSH_FX_FAILURE ''Bad handle''), (SftpHandler_new ''/srv'', Map.empty))"
    by (simp add: handle_read_def SftpPacket_new_def read_string_eq)
qed

text \<open>A directory handle is listed once: the first request returns the entries or reports that the
  directory cannot be read, every later one reports the end of the directory.\<close>

theorem readdir_lists_once:
  assumes "open_dirs (fst s) hnd = Some (p, False)" and "blob_ok hnd" and "sftp_data pkt = write_string [] hnd"
  shows "\<exists>s'. handle_readdir X pkt s =
           (Ok (case read_dir X (snd s) p of
                  Inr es \<Rightarrow> build_sftp_name (request_id pkt) (dir_names es)
                | Inl _ \<Rightarrow> build_sftp_status (request_id pkt) SSH_FX_PERMISSION_DENIED ''Cannot read dir''), s') \<and>
         handle_readdir X pkt s' =
           (Ok (build_sftp_status (request_id pkt) SSH_FX_EOF ''End of directory''), s')"
  using assms by (auto simp: handle_readdir_def wire_simps wire_reads Let_def split: sum.splits)

theorem readdir_lists_once_witness:
  "\<exists>s'. handle_readdir demo_fs (SftpPacket_new SSH_FXP_READDIR 2 (write_string [] [0, 0, 0, 0]))
          ((SftpHandler_new ''/srv'')\<lparr>open_dirs := [[0, 0, 0, 0] \<mapsto> (''/srv'', False)]\<rparr>, Map.empty) =
        (Ok (build_sftp_name 2 []), s') \<and>
        handle_readdir demo_fs (SftpPacket_new SSH_FXP_READDIR 2 (write_string [] [0, 0, 0, 0])) s' =
        (Ok (build_sftp_status 2 SSH_FX_EOF ''End of directory''), s')"
  using readdir_lists_once [of "((SftpHandler_new ''/srv'')\<lparr>open_dirs := [[0, 0, 0, 0] \<mapsto> (''/srv'', False)]\<rparr>, Map.empty)"
      "[0, 0, 0, 0]" "''/srv''" "SftpPacket_new SSH_FXP_READDIR 2 (write_string [] [0, 0, 0, 0])" demo_fs]
  by (simp add: SftpPacket_new_def blob_ok_def MAX_PACKET_SIZE_def demo_fs_def dir_names_def List.map_filter_def)

text \<open>What \<open>std::fs\<close> promises of the contents of regular files. \<open>cont\<close> is what a path holds, nothing
  where there is no file; a file object has a path and a position: opening for writing leaves the file empty with \<open>truncate\<close> and as
  it was without; \<open>write_all\<close> overwrites at the position, with zeros in a gap and nothing done for no
  bytes; \<open>read\<close> returns a prefix of what lies behind the position, and nothing only at the end.\<close>

definition stores_files ::
  "('f, 'h) fs_ops \<Rightarrow> ('f \<Rightarrow> string \<Rightarrow> bytes) \<Rightarrow> ('h \<Rightarrow> string) \<Rightarrow> ('h \<Rightarrow> nat) \<Rightarrow> bool" where
  "stores_files X cont hpath hpos \<longleftrightarrow>
     (\<forall>f p cr tr h f'. open_for_write X f p cr tr = (Inr h, f') \<longrightarrow>
        hpath h = p \<and> cont f' p = (if tr then [] else cont f p)) \<and>
     (\<forall>f h off h'. file_seek X f h off = Inr h' \<longrightarrow> hpath h' = hpath h \<and> hpos h' = unat off) \<and>
     (\<forall>f h d f'. file_write_all X f h d = (Inr (), f') \<longrightarrow>
        cont f' (hpath h) = put_at (cont f (hpath h)) (hpos h) d) \<and>
     (\<forall>f p h. file_open X f p = Inr h \<longrightarrow> hpath h = p) \<and>
     (\<forall>f h n e. file_read X f h n = Inr e \<longrightarrow>
        (let avail = take n (drop (hpos h) (cont f (hpath h)))
         in (\<exists>r. avail = e @ r) \<and> (e = [] \<longrightarrow> avail = [])))"

lemma stores_filesD:
  assumes "stores_files X cont hpath hpos"
  shows "open_for_write X f p cr tr = (Inr h, f') \<Longrightarrow> hpath h = p \<and> cont f' p = (if tr then [] else cont f p)"
    and "file_seek X f h off = Inr h' \<Longrightarrow> hpath h' = hpath h \<and> hpos h' = unat off"
    and "file_write_all X f h d = (Inr (), f') \<Longrightarrow> cont f' (hpath h) = put_at (cont f (hpath h)) (hpos h) d"
    and "file_open X f p = Inr h \<Longrightarrow> hpath h = p"
    and "file_read X f h n = Inr e \<Longrightarrow> \<exists>r. take n (drop (hpos h) (cont f (hpath h))) = e @ r"
proof -
  note laws = assms [unfolded stores_files_def Let_def]
  note behind = laws [THEN conjunct2]
  show "open_for_write X f p cr tr = (Inr h, f') \<Longrightarrow> hpath h = p \<and> cont f' p = (if tr then [] else cont f p)"
    by (rule laws [THEN conjunct1, rule_format])
  show "file_seek X f h off = Inr h' \<Longrightarrow> hpath h' = hpath h \<and> hpos h' = unat off"
    by (rule behind [THEN conjunct1, rule_format])
  show "file_write_all X f h d = (Inr (), f') \<Longrightarrow> cont f' (hpath h) = put_at (cont f (hpath h)) (hpos h) d"
    by (rule behind [THEN conjunct2, THEN conjunct1, rule_format])
  show "file_open X f p = Inr h \<Longrightarrow> hpath h = p"
    by (rule behind [THEN conjunct2, THEN conjunct2, THEN conjunct1, rule_format])
  show "file_read X f h n = Inr e \<Longrightarrow> \<exists>r. take n (drop (hpos h) (cont f (hpath h))) = e @ r"
    by (rule behind [THEN conjunct2, THEN conjunct2, THEN conjunct2, rule_format, THEN conjunct1])
qed

lemma demo_stores_files: "stores_files demo_fs (\<lambda>f p. case f p of None \<Rightarrow> [] | Some d \<Rightarrow> d) fst snd"
  by (auto simp: stores_files_def demo_fs_def Let_def split: if_splits option.splits)

lemma drop_put_at: "d \<noteq> [] \<Longrightarrow> drop pos (put_at old pos d) = d @ drop (pos + length d) old"
  by (simp add: put_at_def)

lemma status_code_eq:
  "build_sftp_status rid c msg = build_sftp_status rid c' msg' \<Longrightarrow> c = c'"
  by (auto simp: build_sftp_status_def SftpPacket_new_def wire_simps)

lemma status_not_data:
  "packet_type (build_sftp_status rid code msg) \<noteq> SSH_FXP_DATA"
  by (simp add: build_sftp_status_def SftpPacket_new_def fxp_defs)

text \<open>A write that is answered \<open>OK\<close> has stored its data at its offset, in what the file held before or,
  with the truncation flag, in an empty file.\<close>

lemma write_stores:
  assumes "stores_files X cont hpath hpos" and "blob_ok hnd" and "blob_ok d"
    and "sftp_data wr = write_string (write_string [] hnd @ to_be_bytes_u64 off) d"
    and "open_files (fst s) hnd = Some (path, fl)"
    and "handle_write X wr s = (Ok (build_sftp_status (request_id wr) SSH_FX_OK ''OK''), s')"
  shows "cont (snd s') path =
           put_at (if fl AND SSH_FXF_TRUNC \<noteq> 0 then [] else cont (snd s) path) (unat off) d \<and>
         fst s' = fst s"
proof -
  have ok: "build_sftp_status i SSH_FX_OK m \<noteq> build_sftp_status i SSH_FX_FAILURE m'"
    "build_sftp_status i SSH_FX_OK m \<noteq> build_sftp_status i SSH_FX_PERMISSION_DENIED m'" for i m m'
    by (auto dest!: status_code_eq simp: SSH_FX_OK_def SSH_FX_FAILURE_def SSH_FX_PERMISSION_DENIED_def)
  from assms(6) obtain h f h' where
      op: "open_for_write X (snd s) path (fl AND SSH_FXF_CREAT \<noteq> 0) (fl AND SSH_FXF_TRUNC \<noteq> 0) = (Inr h, f)"
      and seek: "file_seek X f h off = Inr h'" and put: "file_write_all X f h' d = (Inr (), snd s')" and "fst s' = fst s"
    using assms(2-5) ok ok [THEN not_sym]
    by (auto simp: handle_write_def wire_simps wire_reads cur_read_u64_at split: if_splits sum.splits prod.splits)
  with stores_filesD(1) [OF assms(1) op] stores_filesD(2) [OF assms(1) seek] stores_filesD(3) [OF assms(1) put]
  show ?thesis by simp
qed

lemma take_prefix:
  assumes "take k xs = e @ r"
  shows "\<exists>r'. xs = e @ r' \<and> length e \<le> k"
proof -
  have "length (e @ r) \<le> k" unfolding assms [symmetric] by simp
  moreover have "xs = e @ r @ drop k xs" using append_take_drop_id [of k xs] unfolding assms by simp
  ultimately show ?thesis by auto
qed

lemma read_returns:
  assumes "stores_files X cont hpath hpos" and "blob_ok hnd"
    and "sftp_data rd = write_u32 (write_string [] hnd @ to_be_bytes_u64 off) n"
    and "open_files (fst s) hnd = Some (path, fl)"
    and "handle_read X rd s = (Ok resp, s')" and "packet_type resp = SSH_FXP_DATA"
  shows "\<exists>e r. resp = build_sftp_data (request_id rd) e \<and> e \<noteq> [] \<and>
           take (min (unat n) 32768) (drop (unat off) (cont (snd s) path)) = e @ r"
proof -
  from assms(2-6) obtain h h' e where op: "file_open X (snd s) path = Inr h"
      and seek: "file_seek X (snd s) h off = Inr h'" and get: "file_read X (snd s) h' (min (unat n) 32768) = Inr e"
      and e: "e \<noteq> []" "resp = build_sftp_data (request_id rd) e"
    by (auto simp: handle_read_def wire_simps wire_reads cur_read_u64_at status_not_data split: if_splits sum.splits)
  from stores_filesD(5) [OF assms(1) get] e show ?thesis
    by (simp add: stores_filesD(4) [OF assms(1) op] stores_filesD(2) [OF assms(1) seek] exI [of _ e])
qed

text \<open>C34. What a write has stored is what a read returns: after a write that is answered \<open>OK\<close>, data read
  through the same handle at the same offset is a non-empty prefix, as long as was asked for at most,
  of the data written followed by what the file held behind it. With the truncation flag nothing
  follows.\<close>

theorem written_data_read_back:
  assumes "stores_files X cont hpath hpos" and "blob_ok hnd" and "blob_ok d" and "d \<noteq> []"
    and "sftp_data wr = write_string (write_string [] hnd @ to_be_bytes_u64 off) d"
    and "sftp_data rd = write_u32 (write_string [] hnd @ to_be_bytes_u64 off) n"
    and "open_files (fst s) hnd = Some (path, fl)"
    and "handle_write X wr s = (Ok (build_sftp_status (request_id wr) SSH_FX_OK ''OK''), s')"
    and "handle_read X rd s' = (Ok resp, s'')" and "packet_type resp = SSH_FXP_DATA"
  shows "\<exists>e r. resp = build_sftp_data (request_id rd) e \<and> e \<noteq> [] \<and> length e \<le> unat n \<and>
           d @ (if fl AND SSH_FXF_TRUNC \<noteq> 0 then [] else drop (unat off + length d) (cont (snd s) path)) = e @ r"
proof -
  let ?old = "if fl AND SSH_FXF_TRUNC \<noteq> 0 then [] else cont (snd s) path"
  have "cont (snd s') path = put_at ?old (unat off) d" and tab: "fst s' = fst s"
    using write_stores [OF assms(1-3,5,7,8)] by simp_all
  with assms(4) have rest: "drop (unat off) (cont (snd s') path) =
      d @ (if fl AND SSH_FXF_TRUNC \<noteq> 0 then [] else drop (unat off + length d) (cont (snd s) path))"
    by (simp add: drop_put_at)
  from tab assms(7) have "open_files (fst s') hnd = Some (path, fl)" by simp
  from read_returns [OF assms(1,2,6) this assms(9,10)] obtain e r where
    e: "resp = build_sftp_data (request_id rd) e" "e \<noteq> []"
      "take (min (unat n) 32768) (drop (unat off) (cont (snd s') path)) = e @ r"
    by blast
  from take_prefix [OF e(3)] obtain r' where "drop (unat off) (cont (snd s') path) = e @ r'" "length e \<le> unat n"
    by auto
  with e(1,2) show ?thesis unfolding rest by blast
qed

theorem written_data_read_back_witness:
  "\<exists>e r. snd (handle_write demo_fs (SftpPacket_new SSH_FXP_WRITE 4 (write_string (write_string [] [0, 0, 0, 0] @ to_be_bytes_u64 1) [8, 9]))
           ((SftpHandler_new ''/srv'')\<lparr>open_files := [[0, 0, 0, 0] \<mapsto> (''/srv/f'', 0x3)]\<rparr>, [''/srv/f'' \<mapsto> [1, 2, 3, 4]])) =
         ((SftpHandler_new ''/srv'')\<lparr>open_files := [[0, 0, 0, 0] \<mapsto> (''/srv/f'', 0x3)]\<rparr>, [''/srv/f'' \<mapsto> [1, 8, 9, 4]]) \<and>
       build_sftp_data 5 [8, 9, 4] = build_sftp_data 5 e \<and> e \<noteq> [] \<and> length e \<le> 7 \<and> [8, 9, 4] = e @ r"
proof -
  let ?hnd = "[0, 0, 0, 0] :: bytes" and ?d = "[8, 9] :: bytes"
  let ?wr = "SftpPacket_new SSH_FXP_WRITE 4 (write_string (write_string [] ?hnd @ to_be_bytes_u64 1) ?d)"
  let ?rd = "SftpPacket_new SSH_FXP_READ 5 (write_u32 (write_string [] ?hnd @ to_be_bytes_u64 1) 7)"
  let ?t = "(SftpHandler_new ''/srv'')\<lparr>open_files := [?hnd \<mapsto> (''/srv/f'', 0x3)]\<rparr>"
  let ?s = "(?t, [''/srv/f'' \<mapsto> [1, 2, 3, 4 :: u8]])" and ?s' = "(?t, [''/srv/f'' \<mapsto> [1, 8, 9, 4 :: u8]])"
  have ok: "blob_ok ?hnd" "blob_ok ?d" by (simp_all add: blob_ok_def MAX_PACKET_SIZE_def)
  have put: "put_at [1, 2, 3, 4] 1 ?d = [1, 8, 9, 4]" by (simp add: put_at_def eval_nat_numeral)
  have w: "handle_write demo_fs ?wr ?s = (Ok (build_sftp_status 4 SSH_FX_OK ''OK''), ?s')"
    using ok put by (simp add: handle_write_def SftpPacket_new_def wire_simps wire_reads cur_read_u64_at demo_fs_def
        SSH_FXF_WRITE_def SSH_FXF_CREAT_def SSH_FXF_TRUNC_def)
  have r: "handle_read demo_fs ?rd ?s' = (Ok (build_sftp_data 5 [8, 9, 4]), ?s')"
    using ok by (simp add: handle_read_def SftpPacket_new_def wire_simps wire_reads cur_read_u64_at demo_fs_def)
  have "packet_type (build_sftp_data 5 [8, 9, 4]) = SSH_FXP_DATA" by (simp add: build_sftp_data_def SftpPacket_new_def)
  from written_data_read_back [where wr = ?wr and rd = ?rd and n = 7 and fl = "0x3" and path = "''/srv/f''" and off = 1
      and s = ?s and s' = ?s', OF demo_stores_files ok _ _ _ _ _ r this] w
  show ?thesis by (simp add: SftpPacket_new_def SSH_FXF_TRUNC_def)
qed

text \<open>C35. A file opened with the truncation flag is emptied again by every write request, not only when
  it is opened: of two writes one after the other, both answered \<open>OK\<close>, the data of the first is gone,
  and the file holds what it would if only the second had been sent. Without the flag both are there.\<close>

theorem truncated_at_every_write:
  assumes "stores_files X cont hpath hpos" and "blob_ok hnd" and "blob_ok d1" and "blob_ok d2"
    and "sftp_data w1 = write_string (write_string [] hnd @ to_be_bytes_u64 off1) d1"
    and "sftp_data w2 = write_string (write_string [] hnd @ to_be_bytes_u64 off2) d2"
    and "open_files (fst s) hnd = Some (path, fl)"
    and "handle_write X w1 s = (Ok (build_sftp_status (request_id w1) SSH_FX_OK ''OK''), s1)"
    and "handle_write X w2 s1 = (Ok (build_sftp_status (request_id w2) SSH_FX_OK ''OK''), s2)"
  shows "cont (snd s2) path =
           (if fl AND SSH_FXF_TRUNC \<noteq> 0 then put_at [] (unat off2) d2
            else put_at (put_at (cont (snd s) path) (unat off1) d1) (unat off2) d2)"
proof -
  note fst = write_stores [OF assms(1,2,3,5,7,8)]
  with assms(7) have "open_files (fst s1) hnd = Some (path, fl)" by simp
  from write_stores [OF assms(1,2,4,6) this assms(9)] fst show ?thesis by simp
qed

theorem truncated_at_every_write_witness:
  "snd (snd (handle_write demo_fs (SftpPacket_new SSH_FXP_WRITE 4 (write_string (write_string [] [0, 0, 0, 0] @ to_be_bytes_u64 2) [3, 4]))
      ((SftpHandler_new ''/srv'')\<lparr>open_files := [[0, 0, 0, 0] \<mapsto> (''/srv/new'', 0x1A)]\<rparr>, [''/srv/new'' \<mapsto> [1, 2]])))
      ''/srv/new'' = Some [0, 0, 3, 4]"
proof -
  let ?hnd = "[0, 0, 0, 0] :: bytes"
  let ?put = "\<lambda>off d. SftpPacket_new SSH_FXP_WRITE 4 (write_string (write_string [] ?hnd @ to_be_bytes_u64 off) d)"
  let ?t = "(SftpHandler_new ''/srv'')\<lparr>open_files := [?hnd \<mapsto> (''/srv/new'', 0x1A)]\<rparr>"
  let ?s1 = "(?t, [''/srv/new'' \<mapsto> [1, 2 :: u8]])" and ?s2 = "(?t, [''/srv/new'' \<mapsto> [0, 0, 3, 4 :: u8]])"
  have ok: "blob_ok ?hnd" "blob_ok [1, 2]" "blob_ok [3, 4]" by (simp_all add: blob_ok_def MAX_PACKET_SIZE_def)
  have put: "put_at [] 0 [1, 2] = [1, 2]" "put_at [] 2 [3, 4] = [0, 0, 3, 4]"
    by (simp_all add: put_at_def eval_nat_numeral)
  have w: "handle_write demo_fs (?put 0 [1, 2]) (?t, Map.empty) = (Ok (build_sftp_status 4 SSH_FX_OK ''OK''), ?s1)"
    "handle_write demo_fs (?put 2 [3, 4]) ?s1 = (Ok (build_sftp_status 4 SSH_FX_OK ''OK''), ?s2)"
    using ok put by (simp_all add: handle_write_def SftpPacket_new_def wire_simps wire_reads cur_read_u64_at demo_fs_def
        SSH_FXF_WRITE_def SSH_FXF_CREAT_def SSH_FXF_TRUNC_def)
  from truncated_at_every_write [where fl = "0x1A" and path = "''/srv/new''" and ?w1.0 = "?put 0 [1, 2]"
      and ?w2.0 = "?put 2 [3, 4]" and s = "(?t, Map.empty)" and ?s1.0 = ?s1 and ?s2.0 = ?s2 and ?off1.0 = 0 and ?off2.0 = 2,
      OF demo_stores_files ok] w put
  show ?thesis by (simp add: SftpPacket_new_def SSH_FXF_TRUNC_def)
qed

text \<open>The request that opens every conversation, \<open>SSH_FXP_INIT\<close>, is answered as unsupported.\<close>

lemma init_unsupported:
  "packet_type pkt = SSH_FXP_INIT \<Longrightarrow> handle_request chk X pkt s =
     (Ok (build_sftp_status (request_id pkt) SSH_FX_OP_UNSUPPORTED ''Unsupported operation''), s)"
  by (simp add: handle_request_def fxp_defs return_st_def)

end
