(* ===== verification/Handshake.thy ===== *)
theory Handshake
  imports Kex
begin

text \<open>
  The first two phases of a connection, as \<open>src/bin/server.rs\<close> (\<open>handle_connection\<close>) and
  \<open>src/bin/client.rs\<close> (\<open>run_client\<close>) run them: version exchange, key exchange and the
  installation of the session keys.

  Shown here: for all random choices, a server and a client that are connected to each other
  both complete the handshake, having read exactly what the other wrote, and hold matched
  sessions with the same identifier; from then on the packets of either side are delivered.
\<close>

section \<open>Common steps\<close>

definition with_rng :: "('g \<Rightarrow> 'a \<times> 'g) \<Rightarrow> (('c, 'r, 'w, 'g) endpoint, 'a) stateful" where
  "with_rng f s = (let (x, g) = f (rng s) in (Ok x, s\<lparr>rng := g\<rparr>))"

text \<open>Receiving a packet that has to be of one type.\<close>

definition expect_packet ::
  "('c, 'r, 'w, 'g) ext_ops \<Rightarrow> MessageType \<Rightarrow> SshError \<Rightarrow> (('c, 'r, 'w, 'g) endpoint, SshPacket) stateful" where
  "expect_packet X t err =
     bind_st (recv_packet X) (\<lambda>pkt.
       if msg_type pkt \<noteq> msg_u8 t then fail_st err else return_st pkt)"

section \<open>The server\<close>

definition host_key_blob :: bytes where
  "host_key_blob = as_bytes ''swiftssh-server-host-key''"

definition ecdh_reply :: "('c, 'r, 'w, 'g) ext_ops \<Rightarrow> array32 \<Rightarrow> KexResult \<Rightarrow> SshPacket" where
  "ecdh_reply X server_pub res =
     (let buf = write_string [] host_key_blob;
          buf = write_string buf (arr32 server_pub);
          sig = compute_hmac X (as_bytes ''host-key-secret'') (exchange_hash res);
          buf = write_string buf sig
      in SshPacket_new KexEcdhReply buf)"

definition server_kex ::
  "('c, 'r, 'w, 'g) ext_ops \<Rightarrow> string \<Rightarrow> bytes \<Rightarrow> bytes \<Rightarrow> bytes \<Rightarrow>
   (('c, 'r, 'w, 'g) endpoint, KexResult) stateful" where
  "server_kex X client_version client_kexinit server_kexinit client_pub_bytes =
     (if length client_pub_bytes \<noteq> 32 then fail_st (KeyExchangeErr ''Invalid client public key length'')
      else
        bind_st (with_rng (KexServer_new X)) (\<lambda>kex.
        bind_st (lift_st (fst (KexServer_complete X (arr32_of client_pub_bytes) client_version SSH_VERSION_STRING
            (msg_u8 KexInit # client_kexinit) (msg_u8 KexInit # server_kexinit) host_key_blob kex))) (\<lambda>res.
        bind_st (send_packet X (ecdh_reply X (server_ephemeral_pub kex) res)) (\<lambda>_.
          return_st res))))"

definition server_exchange :: "('c, 'r, 'w, 'g) ext_ops \<Rightarrow> (('c, 'r, 'w, 'g) endpoint, KexResult) stateful" where
  "server_exchange X =
     bind_st (send_version_string X SSH_VERSION_STRING) (\<lambda>_.
     bind_st (recv_version_string X) (\<lambda>client_version.
     bind_st (with_rng (build_kexinit_payload X)) (\<lambda>server_kexinit.
     bind_st (send_packet X (SshPacket_new KexInit server_kexinit)) (\<lambda>_.
     bind_st (expect_packet X KexInit (Protocol ''Expected KEXINIT'')) (\<lambda>client_kexinit_pkt.
     bind_st (expect_packet X KexEcdhInit (Protocol ''Expected KEX_ECDH_INIT'')) (\<lambda>kex_init_pkt.
     bind_st (lift_st (read_string (cursor_new (payload kex_init_pkt)))) (\<lambda>(client_pub_bytes, _).
     bind_st (server_kex X client_version (payload client_kexinit_pkt) server_kexinit client_pub_bytes) (\<lambda>res.
     bind_st (send_packet X (SshPacket_new NewKeys [])) (\<lambda>_.
     bind_st (expect_packet X NewKeys (Protocol ''Expected NEWKEYS'')) (\<lambda>_.
       return_st res))))))))))"

text \<open>One key of the session, by its letter.\<close>

definition session_key :: "('c, 'z) crypto_ops_scheme \<Rightarrow> KexResult \<Rightarrow> char \<Rightarrow> nat \<Rightarrow> bytes" where
  "session_key X res letter n =
     derive_key X (shared_secret res) (exchange_hash res) (byte_of_char letter) (exchange_hash res) n"

definition server_install_keys ::
  "('c, 'r, 'w, 'g) ext_ops \<Rightarrow> KexResult \<Rightarrow> (('c, 'r, 'w, 'g) endpoint, unit) stateful" where
  "server_install_keys X res =
     (let iv_cs = session_key X res CHR ''A'' 16;
          iv_sc = session_key X res CHR ''B'' 16;
          enc_key_cs = session_key X res CHR ''C'' 32;
          enc_key_sc = session_key X res CHR ''D'' 32;
          mac_key_cs = session_key X res CHR ''E'' 32;
          mac_key_sc = session_key X res CHR ''F'' 32
      in bind_st (lift_st (CipherPair_new X enc_key_sc iv_sc enc_key_cs iv_cs)) (\<lambda>cipher_pair s.
           (Ok (), s\<lparr>sess := (sess s)\<lparr>session_id := Some (exchange_hash res), ciphers := Some cipher_pair,
              send_mac_key := Some mac_key_sc, recv_mac_key := Some mac_key_cs\<rparr>\<rparr>)))"

definition server_handshake :: "('c, 'r, 'w, 'g) ext_ops \<Rightarrow> (('c, 'r, 'w, 'g) endpoint, unit) stateful" where
  "server_handshake X = bind_st (server_exchange X) (server_install_keys X)"

section \<open>The client\<close>

definition client_kex ::
  "('c, 'r, 'w, 'g) ext_ops \<Rightarrow> KexClient \<Rightarrow> string \<Rightarrow> bytes \<Rightarrow> bytes \<Rightarrow> SshPacket \<Rightarrow> KexResult outcome" where
  "client_kex X kex server_version client_kexinit server_kexinit reply_pkt =
     and_then (read_string (cursor_new (payload reply_pkt))) (\<lambda>(host_key, c).
     and_then (read_string c) (\<lambda>(server_pub_bytes, c).
     and_then (read_string c) (\<lambda>(sig, c).
       if length server_pub_bytes \<noteq> 32 then Err (KeyExchangeErr ''Invalid server public key length'')
       else fst (KexClient_complete X (arr32_of server_pub_bytes) SSH_VERSION_STRING server_version
              (msg_u8 KexInit # client_kexinit) (msg_u8 KexInit # server_kexinit) host_key kex))))"

definition client_exchange :: "('c, 'r, 'w, 'g) ext_ops \<Rightarrow> (('c, 'r, 'w, 'g) endpoint, KexResult) stateful" where
  "client_exchange X =
     bind_st (send_version_string X SSH_VERSION_STRING) (\<lambda>_.
     bind_st (recv_version_string X) (\<lambda>server_version.
     bind_st (expect_packet X KexInit (Protocol ''Expected KEXINIT from server'')) (\<lambda>server_kexinit_pkt.
     bind_st (with_rng (build_kexinit_payload X)) (\<lambda>client_kexinit.
     bind_st (send_packet X (SshPacket_new KexInit client_kexinit)) (\<lambda>_.
     bind_st (with_rng (KexClient_new X)) (\<lambda>kex.
     bind_st (send_packet X (SshPacket_new KexEcdhInit (write_string [] (arr32 (client_ephemeral_pub kex))))) (\<lambda>_.
     bind_st (expect_packet X KexEcdhReply (Protocol ''Expected KEX_ECDH_REPLY'')) (\<lambda>reply_pkt.
     bind_st (lift_st (client_kex X kex server_version client_kexinit (payload server_kexinit_pkt) reply_pkt)) (\<lambda>res.
     bind_st (expect_packet X NewKeys (Protocol ''Expected NEWKEYS'')) (\<lambda>_.
     bind_st (send_packet X (SshPacket_new NewKeys [])) (\<lambda>_.
       return_st res)))))))))))"

definition client_install_keys ::
  "('c, 'r, 'w, 'g) ext_ops \<Rightarrow> KexResult \<Rightarrow> (('c, 'r, 'w, 'g) endpoint, unit) stateful" where
  "client_install_keys X res =
     (let iv_cs = session_key X res CHR ''A'' 16;
          iv_sc = session_key X res CHR ''B'' 16;
          enc_key_cs = session_key X res CHR ''C'' 32;
          enc_key_sc = session_key X res CHR ''D'' 32;
          mac_key_cs = session_key X res CHR ''E'' 32;
          mac_key_sc = session_key X res CHR ''F'' 32
      in bind_st (lift_st (CipherPair_new X enc_key_cs iv_cs enc_key_sc iv_sc)) (\<lambda>cipher_pair s.
           (Ok (), s\<lparr>sess := (sess s)\<lparr>session_id := Some (exchange_hash res), ciphers := Some cipher_pair,
              send_mac_key := Some mac_key_cs, recv_mac_key := Some mac_key_sc\<rparr>\<rparr>)))"

definition client_handshake :: "('c, 'r, 'w, 'g) ext_ops \<Rightarrow> (('c, 'r, 'w, 'g) endpoint, unit) stateful" where
  "client_handshake X = bind_st (client_exchange X) (client_install_keys X)"

section \<open>Packets before encryption\<close>

text \<open>The bytes of a packet in the clear, and the random source behind its padding.\<close>

definition plain_bytes :: "('c, 'r, 'w, 'g) ext_ops \<Rightarrow> SshPacket \<Rightarrow> 'g \<Rightarrow> bytes" where
  "plain_bytes X pkt g = (case fst (serialize (fill_bytes X) pkt 8 g) of Ok d \<Rightarrow> d | _ \<Rightarrow> [])"

definition plain_rng :: "('c, 'r, 'w, 'g) ext_ops \<Rightarrow> SshPacket \<Rightarrow> 'g \<Rightarrow> 'g" where
  "plain_rng X pkt g = snd (serialize (fill_bytes X) pkt 8 g)"

definition clear_session :: "u32 \<Rightarrow> u32 \<Rightarrow> 'c SessionKeys" where
  "clear_session m n = SessionKeys_new\<lparr>send_seq := m, recv_seq := n\<rparr>"

lemma clear_session_sel [simp]:
  "send_seq (clear_session m n) = m" "recv_seq (clear_session m n) = n"
  "session_id (clear_session m n) = None" "ciphers (clear_session m n) = None"
  "send_mac_key (clear_session m n) = None" "recv_mac_key (clear_session m n) = None"
  by (simp_all add: clear_session_def SessionKeys_new_def)

lemma clear_session_upd [simp]:
  "(clear_session m n)\<lparr>send_seq := k\<rparr> = clear_session k n" "(clear_session m n)\<lparr>recv_seq := k\<rparr> = clear_session m k"
  by (simp_all add: clear_session_def)

lemma block_size_clear [simp]: "block_size (clear_session m n) = 8"
  by (simp add: block_size_def is_encrypted_def)

section \<open>Runs of an endpoint\<close>

text \<open>\<open>runs m a x b\<close>: from every endpoint in the situation \<open>a\<close> (bytes still to read, bytes written,
  session, random source) the code \<open>m\<close> returns \<open>x\<close> and leaves the endpoint in the situation \<open>b\<close>.\<close>

type_synonym ('c, 'g) situation = "bytes \<times> bytes \<times> 'c SessionKeys \<times> 'g"

definition situated ::
  "('r \<Rightarrow> bytes) \<Rightarrow> ('w \<Rightarrow> bytes) \<Rightarrow> ('c, 'g) situation \<Rightarrow> ('c, 'r, 'w, 'g) endpoint \<Rightarrow> bool" where
  "situated avail sent a s \<longleftrightarrow> (avail (rdr s), sent (wtr s), sess s, rng s) = a"

definition runs ::
  "('r \<Rightarrow> bytes) \<Rightarrow> ('w \<Rightarrow> bytes) \<Rightarrow> (('c, 'r, 'w, 'g) endpoint, 'x) stateful \<Rightarrow>
   ('c, 'g) situation \<Rightarrow> 'x \<Rightarrow> ('c, 'g) situation \<Rightarrow> bool" where
  "runs avail sent m a x b \<longleftrightarrow>
     (\<forall>s. situated avail sent a s \<longrightarrow> (\<exists>s'. m s = (Ok x, s') \<and> situated avail sent b s'))"

lemma runs_bind:
  "runs avail sent m a x b \<Longrightarrow> runs avail sent (f x) b y c \<Longrightarrow> runs avail sent (bind_st m f) a y c"
  unfolding runs_def by (metis bind_st_Ok)

lemma runs_eq: "runs avail sent m a x b \<Longrightarrow> b = c \<Longrightarrow> runs avail sent m a x c"
  by simp

lemma runs_return: "runs avail sent (return_st x) a x a"
  by (simp add: runs_def return_st_def)

lemma runs_lift: "m = Ok x \<Longrightarrow> runs avail sent (lift_st m) a x a"
  by (simp add: runs_return)

lemma runs_with_rng: "f g = (x, g') \<Longrightarrow> runs avail sent (with_rng f) (i, o', k, g) x (i, o', k, g')"
  by (simp add: runs_def situated_def with_rng_def)

lemma runs_send_version:
  assumes "writer_law X sent"
  shows "runs avail sent (send_version_string X v) (i, o', k, g) () (i, o' @ as_bytes v @ [0x0D, 0x0A], k, g)"
  using send_version_string_Ok [OF assms] by (fastforce simp: runs_def situated_def)

lemma runs_recv_version:
  assumes "reader_law X avail" and "version_ok v"
  shows "runs avail sent (recv_version_string X) (as_bytes v @ [0x0D, 0x0A] @ i, o', k, g) v (i, o', k, g)"
  using recv_version_string_Ok [OF assms(1) _ assms(2)] by (fastforce simp: runs_def situated_def)

lemma serialize_plain:
  assumes "length (payload p) \<le> 34970"
  shows "serialize (fill_bytes X) p 8 g = (Ok (plain_bytes X p g), plain_rng X p g)"
  using serialize_small [OF assms, of 8 "fill_bytes X" g] by (auto simp: plain_bytes_def plain_rng_def)

lemma clear_wire [simp]:
  "wire_of X (clear_session m n) d = d" "sent_keys X (clear_session m n) d = clear_session (m + 1) n"
  by (simp_all add: wire_of_def mac_of_def encrypt_data_def sent_keys_def)

lemma runs_send_plain:
  assumes "writer_law X sent" and "length (payload p) \<le> 34970"
  shows "runs avail sent (send_packet X p) (i, o', clear_session m n, g) ()
           (i, o' @ plain_bytes X p g, clear_session (m + 1) n, plain_rng X p g)"
  unfolding runs_def situated_def
proof (intro allI impI)
  fix s :: "('a, 'b, 'c, 'd) endpoint"
  assume "(avail (rdr s), sent (wtr s), sess s, rng s) = (i, o', clear_session m n, g)"
  with send_packet_cases [OF assms(1), of p s] serialize_plain [OF assms(2), of X g]
  show "\<exists>s'. send_packet X p s = (Ok (), s') \<and>
      (avail (rdr s'), sent (wtr s'), sess s', rng s') =
      (i, o' @ plain_bytes X p g, clear_session (m + 1) n, plain_rng X p g)" by auto
qed

lemma decrypt_clear [simp]: "decrypt_data X d (clear_session m n) = (d, clear_session m n)"
  by (simp add: decrypt_data_def)

lemma recv_packet_clear:
  assumes "sess t = clear_session m n" and "recv_packet X t = (Ok p, t')"
  shows "sess t' = clear_session m (n + 1) \<and> wtr t' = wtr t \<and> rng t' = rng t"
  using assms
  by (auto simp: recv_packet_def Let_def bind_st_def read_bytes_or_closed_def read_bytes_def recv_rest_def
      check_mac_def lift_st_def return_st_def split_beta split: outcome.splits if_splits prod.splits)

lemma runs_expect_plain:
  assumes "link_laws X avail sent" and "length (payload p) \<le> 34970" and "msg_type p = msg_u8 t"
  shows "runs avail sent (expect_packet X t e) (plain_bytes X p g0 @ i, o', clear_session m n, g) p
           (i, o', clear_session m (n + 1), g)"
  unfolding runs_def situated_def
proof (intro allI impI)
  fix s :: "('a, 'b, 'c, 'd) endpoint"
  assume s: "(avail (rdr s), sent (wtr s), sess s, rng s) = (plain_bytes X p g0 @ i, o', clear_session m n, g)"
  have laws: "stream_cipher X" "mac_verifies X" "reader_law X avail" "fills (fill_bytes X)"
    using assms(1) by (simp_all add: link_laws_def)
  have "fits (clear_session n m) (sess s)" using s by (simp add: fits_def send_half_def recv_half_def)
  from recv_packet_of_wire [OF laws this, of p g0 "plain_bytes X p g0" "plain_rng X p g0" i] s
  obtain s' where s': "recv_packet X s = (Ok p, s')" "avail (rdr s') = i"
    using serialize_plain [OF assms(2), of X g0] by auto
  with recv_packet_clear [OF _ s'(1), of m n] s assms(3)
  show "\<exists>s'. expect_packet X t e s = (Ok p, s') \<and>
      (avail (rdr s'), sent (wtr s'), sess s', rng s') = (i, o', clear_session m (n + 1), g)"
    by (auto simp: expect_packet_def bind_st_def return_st_def)
qed

section \<open>The two roles against each other\<close>

definition version_line :: bytes where
  "version_line = as_bytes SSH_VERSION_STRING @ [0x0D, 0x0A]"

lemma own_version_ok: "version_ok SSH_VERSION_STRING"
proof -
  have ascii: "ascii_str ''SSH-2.0-SwiftSSH_0.1''" and lf: "0x0A \<notin> set (as_bytes ''SSH-2.0-SwiftSSH_0.1'')" by code_simp+
  then show ?thesis by (simp add: version_ok_def valid_str_ascii SSH_VERSION_STRING_def)
qed

lemma runs_version:
  assumes "link_laws X avail sent"
  shows "runs avail sent (send_version_string X SSH_VERSION_STRING) (i, o', k, g) () (i, o' @ version_line, k, g)"
    and "runs avail sent (recv_version_string X) (version_line @ i, o', k, g) SSH_VERSION_STRING (i, o', k, g)"
  using runs_send_version [of X sent avail] runs_recv_version [of X avail SSH_VERSION_STRING sent] own_version_ok assms
  by (simp_all add: version_line_def link_laws_def)

abbreviation new_keys :: SshPacket where
  "new_keys \<equiv> SshPacket_new NewKeys []"

abbreviation kex_init :: "bytes \<Rightarrow> SshPacket" where
  "kex_init p \<equiv> SshPacket_new KexInit p"

definition ecdh_init :: "array32 \<Rightarrow> SshPacket" where
  "ecdh_init e = SshPacket_new KexEcdhInit (write_string [] (arr32 e))"

lemma blob_ok_host_key: "blob_ok host_key_blob"
  by (simp add: blob_ok_def host_key_blob_def MAX_PACKET_SIZE_def)

lemma handshake_packets [simp]:
  "msg_type (SshPacket_new t p) = msg_u8 t" "payload (SshPacket_new t p) = p"
  "msg_type (ecdh_init e) = msg_u8 KexEcdhInit" "payload (ecdh_init e) = write_string [] (arr32 e)"
  "msg_type (ecdh_reply X f res) = msg_u8 KexEcdhReply" "length (payload (ecdh_reply X f res)) \<le> 34970"
  by (simp_all add: SshPacket_new_def ecdh_init_def ecdh_reply_def host_key_blob_def)

lemma read_ecdh_init: "read_string (cursor_new (payload (ecdh_init e))) = Ok (arr32 e, cur_adv 36 (cursor_new (payload (ecdh_init e))))"
  by (simp add: wire_simps wire_reads)

lemma length_kexinit_payload:
  "fills (fill_bytes X) \<Longrightarrow> build_kexinit_payload X g = (p, g') \<Longrightarrow> length p \<le> 34970"
  using length_kexinit [of X g] by simp

lemma server_exchange_runs:
  assumes laws: "link_laws X avail sent" and ck: "length ck \<le> 34970"
    and sk: "build_kexinit_payload X g = (sk, g1)"
    and kex: "KexServer_new X (plain_rng X (kex_init sk) g1) = (kex, g2)"
    and res: "fst (KexServer_complete X e SSH_VERSION_STRING SSH_VERSION_STRING
                (msg_u8 KexInit # ck) (msg_u8 KexInit # sk) host_key_blob kex) = Ok res"
  defines "reply \<equiv> ecdh_reply X (server_ephemeral_pub kex) res"
  shows "runs avail sent (server_exchange X)
    (version_line @ plain_bytes X (kex_init ck) h1 @ plain_bytes X (ecdh_init e) h2 @ plain_bytes X new_keys h3 @ i,
     o', clear_session 0 0, g) res
    (i, o' @ version_line @ plain_bytes X (kex_init sk) g1 @ plain_bytes X reply g2 @
        plain_bytes X new_keys (plain_rng X reply g2),
     clear_session 3 3, plain_rng X new_keys (plain_rng X reply g2))"
proof -
  have w: "writer_law X sent" and f: "fills (fill_bytes X)" using laws by (simp_all add: link_laws_def)
  have skl: "length sk \<le> 34970" using length_kexinit_payload [OF f sk] .
  have kex_runs: "runs avail sent (server_kex X SSH_VERSION_STRING ck sk (arr32 e))
      (j, q, clear_session m n, plain_rng X (kex_init sk) g1) res
      (j, q @ plain_bytes X reply g2, clear_session (m + 1) n, plain_rng X reply g2)" for j q m n
    unfolding server_kex_def reply_def using res
    by (auto intro!: runs_bind runs_with_rng [of "KexServer_new X", OF kex] runs_send_plain [OF w] runs_return)
  show ?thesis unfolding server_exchange_def
    apply (rule runs_eq)
     apply (rule runs_bind [OF runs_version(1) [OF laws]])
     apply (rule runs_bind [OF runs_version(2) [OF laws]])
     apply (rule runs_bind [OF runs_with_rng [of "build_kexinit_payload X", OF sk]])
     apply (rule runs_bind [OF runs_send_plain [OF w]], simp add: skl)
     apply (rule runs_bind [OF runs_expect_plain [OF laws]], simp add: ck, simp)
     apply (rule runs_bind [OF runs_expect_plain [OF laws]], simp, simp)
     apply (rule runs_bind [OF runs_lift [OF read_ecdh_init]])
     apply (simp only: prod.case handshake_packets)
     apply (rule runs_bind [OF kex_runs])
     apply (rule runs_bind [OF runs_send_plain [OF w]], simp)
     apply (rule runs_bind [OF runs_expect_plain [OF laws]], simp, simp)
     apply (rule runs_return)
    apply simp
    done
qed

lemma client_kex_reply:
  assumes "fst (KexClient_complete X f SSH_VERSION_STRING v ick isk host_key_blob kex) = Ok res"
    and "ick = msg_u8 KexInit # ck" and "isk = msg_u8 KexInit # sk"
  shows "client_kex X kex v ck sk (ecdh_reply X f res') = Ok res"
proof -
  have "blob_ok (compute_hmac X (as_bytes ''host-key-secret'') (exchange_hash res'))"
    by (simp add: blob_ok_def MAX_PACKET_SIZE_def)
  with assms show ?thesis
    by (simp add: client_kex_def ecdh_reply_def SshPacket_new_def wire_simps wire_reads blob_ok_host_key)
qed

lemma client_exchange_runs:
  assumes laws: "link_laws X avail sent" and sk: "length sk \<le> 34970"
    and ck: "build_kexinit_payload X g = (ck, g1)"
    and kex: "KexClient_new X (plain_rng X (kex_init ck) g1) = (kex, g2)"
    and res: "fst (KexClient_complete X f SSH_VERSION_STRING SSH_VERSION_STRING
                (msg_u8 KexInit # ck) (msg_u8 KexInit # sk) host_key_blob kex) = Ok res"
  defines "init \<equiv> ecdh_init (client_ephemeral_pub kex)"
  shows "runs avail sent (client_exchange X)
    (version_line @ plain_bytes X (kex_init sk) h1 @ plain_bytes X (ecdh_reply X f res') h2 @ plain_bytes X new_keys h3 @ i,
     o', clear_session 0 0, g) res
    (i, o' @ version_line @ plain_bytes X (kex_init ck) g1 @ plain_bytes X init g2 @
        plain_bytes X new_keys (plain_rng X init g2),
     clear_session 3 3, plain_rng X new_keys (plain_rng X init g2))"
proof -
  have w: "writer_law X sent" and f: "fills (fill_bytes X)" using laws by (simp_all add: link_laws_def)
  have ckl: "length ck \<le> 34970" using length_kexinit_payload [OF f ck] .
  show ?thesis unfolding client_exchange_def init_def
    apply (rule runs_eq)
     apply (rule runs_bind [OF runs_version(1) [OF laws]])
     apply (rule runs_bind [OF runs_version(2) [OF laws]])
     apply (rule runs_bind [OF runs_expect_plain [OF laws]], simp add: sk, simp)
     apply (rule runs_bind [OF runs_with_rng [of "build_kexinit_payload X", OF ck]])
     apply (rule runs_bind [OF runs_send_plain [OF w]], simp add: ckl)
     apply (rule runs_bind [OF runs_with_rng [of "KexClient_new X", OF kex]])
     apply (simp only: handshake_packets ecdh_init_def [symmetric])
     apply (rule runs_bind [OF runs_send_plain [OF w]], simp)
     apply (rule runs_bind [OF runs_expect_plain [OF laws]], simp, simp)
     apply (rule runs_bind [OF runs_lift [OF client_kex_reply [OF res refl refl]]])
     apply (rule runs_bind [OF runs_expect_plain [OF laws]], simp, simp)
     apply (rule runs_bind [OF runs_send_plain [OF w]], simp)
     apply (rule runs_return)
    apply simp
    done
qed

section \<open>Installing the keys\<close>

definition session_of ::
  "('c, 'z) crypto_ops_scheme \<Rightarrow> KexResult \<Rightarrow> bool \<Rightarrow> 'c SessionKeys \<Rightarrow> 'c SessionKeys" where
  "session_of X res server k =
     (let cs = \<lparr>cipher = aes256_ctr_new X (session_key X res CHR ''C'' 32) (session_key X res CHR ''A'' 16)\<rparr>;
          sc = \<lparr>cipher = aes256_ctr_new X (session_key X res CHR ''D'' 32) (session_key X res CHR ''B'' 16)\<rparr>;
          mac_cs = session_key X res CHR ''E'' 32;
          mac_sc = session_key X res CHR ''F'' 32
      in k\<lparr>session_id := Some (exchange_hash res),
           ciphers := Some (if server then \<lparr>encrypt = sc, decrypt = cs\<rparr> else \<lparr>encrypt = cs, decrypt = sc\<rparr>),
           send_mac_key := Some (if server then mac_sc else mac_cs),
           recv_mac_key := Some (if server then mac_cs else mac_sc)\<rparr>)"

lemma runs_install_keys:
  "runs avail sent (server_install_keys X res) (i, o', k, g) () (i, o', session_of X res True k, g)"
  "runs avail sent (client_install_keys X res) (i, o', k, g) () (i, o', session_of X res False k, g)"
  by (auto simp: runs_def situated_def server_install_keys_def client_install_keys_def session_of_def
      session_key_def CipherPair_new_Ok Let_def bind_st_def return_st_def)

lemma session_of_matched:
  "send_seq a = recv_seq b \<Longrightarrow> send_seq b = recv_seq a \<Longrightarrow>
   matched (session_of X res True a) (session_of X res False b)"
  by (simp add: matched_def fits_def send_half_def recv_half_def session_of_def)

lemma session_of_sel:
  "session_id (session_of X res r k) = Some (exchange_hash res)" "is_encrypted (session_of X res r k)"
  by (simp_all add: session_of_def is_encrypted_def Let_def)

section \<open>Properties of the handshake\<close>

lemma clear_session_new: "SessionKeys_new = clear_session 0 0"
  by (simp add: clear_session_def SessionKeys_new_def)

lemma handshake_runs:
  assumes laws: "link_laws X avail sent" and dh: "dh_commutes X"
  shows "\<exists>ws wc res gs' gc'.
    (\<forall>i o'. runs avail sent (server_handshake X) (wc @ i, o', clear_session 0 0, gs) ()
       (i, o' @ ws, session_of X res True (clear_session 3 3), gs')) \<and>
    (\<forall>i o'. runs avail sent (client_handshake X) (ws @ i, o', clear_session 0 0, gc) ()
       (i, o' @ wc, session_of X res False (clear_session 3 3), gc'))"
proof -
  have f: "fills (fill_bytes X)" using laws by (simp add: link_laws_def)
  obtain sk g1 where sk: "build_kexinit_payload X gs = (sk, g1)" by (cases "build_kexinit_payload X gs")
  obtain ck h1 where ck: "build_kexinit_payload X gc = (ck, h1)" by (cases "build_kexinit_payload X gc")
  obtain ks g2 where ks: "KexServer_new X (plain_rng X (kex_init sk) g1) = (ks, g2)"
    by (cases "KexServer_new X (plain_rng X (kex_init sk) g1)")
  obtain kc h2 where kc: "KexClient_new X (plain_rng X (kex_init ck) h1) = (kc, h2)"
    by (cases "KexClient_new X (plain_rng X (kex_init ck) h1)")
  have len: "length sk \<le> 34970" "length ck \<le> 34970"
    using length_kexinit_payload [OF f sk] length_kexinit_payload [OF f ck] .
  from kc obtain a where a: "client_secret kc = Some a" "client_ephemeral_pub kc = x25519_public X a"
    by (rule KexClient_new_sel)
  from ks obtain b where b: "server_secret ks = Some b" "server_ephemeral_pub ks = x25519_public X b"
    by (rule KexServer_new_sel)
  from kex_complete_agree [OF dh a b] obtain res
    where rc: "fst (KexClient_complete X (server_ephemeral_pub ks) SSH_VERSION_STRING SSH_VERSION_STRING
        (msg_u8 KexInit # ck) (msg_u8 KexInit # sk) host_key_blob kc) = Ok res"
      and rs: "fst (KexServer_complete X (client_ephemeral_pub kc) SSH_VERSION_STRING SSH_VERSION_STRING
        (msg_u8 KexInit # ck) (msg_u8 KexInit # sk) host_key_blob ks) = Ok res"
    by fastforce
  let ?reply = "ecdh_reply X (server_ephemeral_pub ks) res" and ?init = "ecdh_init (client_ephemeral_pub kc)"
  let ?ws = "version_line @ plain_bytes X (kex_init sk) g1 @ plain_bytes X ?reply g2 @
      plain_bytes X new_keys (plain_rng X ?reply g2)"
  let ?wc = "version_line @ plain_bytes X (kex_init ck) h1 @ plain_bytes X ?init h2 @
      plain_bytes X new_keys (plain_rng X ?init h2)"
  note s = runs_bind [OF server_exchange_runs [OF laws len(2) sk ks rs, where ?h1.0 = h1 and ?h2.0 = h2
      and ?h3.0 = "plain_rng X ?init h2"] runs_install_keys(1)]
  note c = runs_bind [OF client_exchange_runs [OF laws len(1) ck kc rc, where ?h1.0 = g1 and ?h2.0 = g2
      and ?h3.0 = "plain_rng X ?reply g2" and res' = res] runs_install_keys(2)]
  show ?thesis
    unfolding server_handshake_def client_handshake_def
    by (rule exI [of _ ?ws], rule exI [of _ ?wc], intro exI conjI allI)
       (use s c in \<open>simp_all only: append.assoc\<close>)
qed

text \<open>C2. For all random choices of the two sides there are byte sequences such that a server that
  reads what the client writes and a client that reads what the server writes both complete the
  handshake; each has written exactly what the other read, nothing behind it is consumed, both
  sessions are encrypted under the same identifier, and they match: whatever either side sends from
  then on can be received by the other.\<close>

theorem handshake_completes:
  assumes "link_laws X avail sent" and "dh_commutes X"
  shows "\<exists>ws wc. \<forall>s c rs rc.
    sess s = SessionKeys_new \<and> rng s = gs \<and> avail (rdr s) = wc @ rs \<and>
    sess c = SessionKeys_new \<and> rng c = gc \<and> avail (rdr c) = ws @ rc \<longrightarrow>
    (\<exists>s' c'. server_handshake X s = (Ok (), s') \<and> client_handshake X c = (Ok (), c') \<and>
       sent (wtr s') = sent (wtr s) @ ws \<and> sent (wtr c') = sent (wtr c) @ wc \<and>
       avail (rdr s') = rs \<and> avail (rdr c') = rc \<and>
       matched (sess s') (sess c') \<and> is_encrypted (sess s') \<and>
       session_id (sess s') = session_id (sess c') \<and> session_id (sess s') \<noteq> None)"
proof -
  obtain ws wc res gs' gc' where
    s: "\<And>i o'. runs avail sent (server_handshake X) (wc @ i, o', clear_session 0 0, gs) ()
       (i, o' @ ws, session_of X res True (clear_session 3 3), gs')" and
    c: "\<And>i o'. runs avail sent (client_handshake X) (ws @ i, o', clear_session 0 0, gc) ()
       (i, o' @ wc, session_of X res False (clear_session 3 3), gc')"
    using handshake_runs [OF assms, of gs gc] by blast
  have m: "matched (session_of X res True (clear_session 3 3)) (session_of X res False (clear_session 3 3))"
    by (rule session_of_matched) simp_all
  have "\<exists>s' c'. server_handshake X s = (Ok (), s') \<and> client_handshake X c = (Ok (), c') \<and>
       sent (wtr s') = sent (wtr s) @ ws \<and> sent (wtr c') = sent (wtr c) @ wc \<and>
       avail (rdr s') = rs \<and> avail (rdr c') = rc \<and>
       matched (sess s') (sess c') \<and> is_encrypted (sess s') \<and>
       session_id (sess s') = session_id (sess c') \<and> session_id (sess s') \<noteq> None"
    if "sess s = SessionKeys_new \<and> rng s = gs \<and> avail (rdr s) = wc @ rs \<and>
        sess c = SessionKeys_new \<and> rng c = gc \<and> avail (rdr c) = ws @ rc" for s c rs rc
  proof -
    have "situated avail sent (wc @ rs, sent (wtr s), clear_session 0 0, gs) s"
      and "situated avail sent (ws @ rc, sent (wtr c), clear_session 0 0, gc) c"
      using that by (simp_all add: situated_def clear_session_new)
    then obtain s' c' where "server_handshake X s = (Ok (), s')" "client_handshake X c = (Ok (), c')"
      and "situated avail sent (rs, sent (wtr s) @ ws, session_of X res True (clear_session 3 3), gs') s'"
      and "situated avail sent (rc, sent (wtr c) @ wc, session_of X res False (clear_session 3 3), gc') c'"
      using s c unfolding runs_def by blast
    with m show ?thesis by (auto simp: situated_def session_of_sel)
  qed
  then show ?thesis by blast
qed

theorem handshake_completes_witness:
  "\<exists>ws wc s' c'. server_handshake demo_ext (demo_endpoint wc) = (Ok (), s') \<and>
     client_handshake demo_ext (demo_endpoint ws) = (Ok (), c') \<and>
     wtr s' = ws \<and> wtr c' = wc \<and> matched (sess s') (sess c') \<and> is_encrypted (sess s')"
proof -
  obtain ws wc where h: "\<And>s c rs rc.
    sess s = SessionKeys_new \<and> rng s = () \<and> rdr s = wc @ rs \<and>
    sess c = SessionKeys_new \<and> rng c = () \<and> rdr c = ws @ rc \<Longrightarrow>
    \<exists>s' c'. server_handshake demo_ext s = (Ok (), s') \<and> client_handshake demo_ext c = (Ok (), c') \<and>
       wtr s' = wtr s @ ws \<and> wtr c' = wtr c @ wc \<and> matched (sess s') (sess c') \<and> is_encrypted (sess s')"
    using handshake_completes [OF demo_link_laws demo_dh_commutes, of "()" "()"] by blast
  from h [of "demo_endpoint wc" "[]" "demo_endpoint ws" "[]"] show ?thesis by (auto simp: demo_endpoint_def)
qed

end
