(* ===== verification/Loops.thy ===== *)
theory Loops
  imports Errors
begin

text \<open>
  Loops whose number of iterations is decided by the peer. The body returns \<open>Ok True\<close> to leave
  the loop (\<open>break\<close>, or a condition that fails), \<open>Ok False\<close> to go on, and an error to return
  from the enclosing function. A loop that never ends has the value \<open>None\<close>.

  The locale \<open>consuming_loop\<close> is the contract of a body that uses up some input in every
  iteration that goes on: such a loop returns. What holds before a loop and is kept by its
  body holds when it returns.
\<close>

partial_function (option) loop_st :: "('s, bool) stateful \<Rightarrow> 's \<Rightarrow> (unit outcome \<times> 's) option" where
  "loop_st body s =
     (case body s of
        (r, s') \<Rightarrow>
          (case r of
             Ok stop \<Rightarrow> if stop then Some (Ok (), s') else loop_st body s'
           | Err e \<Rightarrow> Some (Err e, s')
           | Panic \<Rightarrow> Some (Panic, s')))"

text \<open>Code that contains such loops: \<open>run_st\<close> embeds code that always returns, \<open>then_run\<close> is
  sequencing with early return.\<close>

type_synonym ('s, 'a) running = "'s \<Rightarrow> ('a outcome \<times> 's) option"

definition run_st :: "('s, 'a) stateful \<Rightarrow> ('s, 'a) running" where
  "run_st m s = Some (m s)"

definition then_run :: "('s, 'a) running \<Rightarrow> ('a \<Rightarrow> ('s, 'b) running) \<Rightarrow> ('s, 'b) running" where
  "then_run m f s =
     (case m s of
        None \<Rightarrow> None
      | Some (r, s') \<Rightarrow>
          (case r of
             Ok x \<Rightarrow> f x s'
           | Err e \<Rightarrow> Some (Err e, s')
           | Panic \<Rightarrow> Some (Panic, s')))"

lemma then_run_returns:
  assumes "\<And>s. \<exists>r s'. m s = Some (r, s')" and "\<And>x s. \<exists>r s'. f x s = Some (r, s')"
  shows "\<exists>r s'. then_run m f s = Some (r, s')"
proof -
  obtain r s' where "m s = Some (r, s')" using assms(1) by blast
  with assms(2) show ?thesis by (cases r) (simp_all add: then_run_def)
qed

lemma run_st_returns: "\<exists>r s'. run_st m s = Some (r, s')"
  by (cases "m s") (simp add: run_st_def)

lemma then_run_OkE:
  assumes "then_run m f s = Some (Ok y, s')"
  obtains x t where "m s = Some (Ok x, t)" and "f x t = Some (Ok y, s')"
  using assms by (auto simp: then_run_def split: option.splits outcome.splits)

lemma loop_st_simps:
  "body s = (Ok True, s') \<Longrightarrow> loop_st body s = Some (Ok (), s')"
  "body s = (Ok False, s') \<Longrightarrow> loop_st body s = loop_st body s'"
  "body s = (Err e, s') \<Longrightarrow> loop_st body s = Some (Err e, s')"
  "body s = (Panic, s') \<Longrightarrow> loop_st body s = Some (Panic, s')"
  by (subst loop_st.simps; simp)+

locale consuming_loop =
  fixes body :: "('s, bool) stateful"
    and input :: "'s \<Rightarrow> nat"
    and lawful :: bool
  assumes consumes: "lawful \<Longrightarrow> body s = (Ok False, s') \<Longrightarrow> input s' < input s"
begin

lemma returns:
  assumes lawful
  shows "\<exists>r s'. loop_st body s = Some (r, s')"
proof (induction "input s" arbitrary: s rule: less_induct)
  case less
  obtain r s' where b: "body s = (r, s')" by (cases "body s")
  show ?case
  proof (cases "r = Ok False")
    case True
    with b less [of s'] consumes [OF assms, of s s'] show ?thesis by (simp add: loop_st_simps(2))
  next
    case False
    with b show ?thesis by (cases r) (auto simp: loop_st_simps)
  qed
qed

end

text \<open>The states in which the body is run, by iteration.\<close>

inductive iterates_to :: "('s, bool) stateful \<Rightarrow> 's \<Rightarrow> 's \<Rightarrow> bool" for body :: "('s, bool) stateful" where
  here: "iterates_to body s s"
| again: "body s = (Ok False, s') \<Longrightarrow> iterates_to body s' t \<Longrightarrow> iterates_to body s t"

text \<open>A loop that returns did so in the last state in which its body was run.\<close>

definition leaves_at :: "('s, bool) stateful \<Rightarrow> 's \<Rightarrow> unit outcome \<times> 's \<Rightarrow> bool" where
  "leaves_at body t x \<longleftrightarrow>
     body t = (case fst x of Ok _ \<Rightarrow> Ok True | Err e \<Rightarrow> Err e | Panic \<Rightarrow> Panic, snd x)"

lemma loop_st_last:
  assumes "loop_st body s = Some x"
  shows "\<exists>t. iterates_to body s t \<and> leaves_at body t x"
  using _ assms
proof (rule loop_st.raw_induct [where P = "\<lambda>body s x. \<exists>t. iterates_to body s t \<and> leaves_at body t x"])
  fix loop :: "('s, bool) stateful \<Rightarrow> 's \<Rightarrow> (unit outcome \<times> 's) option"
    and body :: "('s, bool) stateful" and s :: 's and x
  assume IH: "\<And>body s x. loop body s = Some x \<Longrightarrow> \<exists>t. iterates_to body s t \<and> leaves_at body t x"
    and x: "(case body s of (r, s') \<Rightarrow>
          (case r of Ok stop \<Rightarrow> if stop then Some (Ok (), s') else loop body s'
           | Err e \<Rightarrow> Some (Err e, s') | Panic \<Rightarrow> Some (Panic, s'))) = Some x"
  obtain b u where b: "body s = (b, u)" by (cases "body s")
  show "\<exists>t. iterates_to body s t \<and> leaves_at body t x"
  proof (cases "b = Ok False")
    case True
    with b x IH [of body u x] show ?thesis by (auto intro: iterates_to.again)
  next
    case False
    with b x show ?thesis
      by (intro exI [of _ s]) (auto simp: leaves_at_def intro: iterates_to.here split: outcome.splits)
  qed
qed

lemma iterates_to_invariant:
  assumes "iterates_to body s t" and "P s" and "\<And>u u'. P u \<Longrightarrow> body u = (Ok False, u') \<Longrightarrow> P u'"
  shows "P t"
  using assms by induction auto

lemma loop_st_invariant:
  assumes "loop_st body s = Some (r, s')" and "P s" and "\<And>u b u'. P u \<Longrightarrow> body u = (b, u') \<Longrightarrow> P u'"
  shows "P s'"
proof -
  from loop_st_last [OF assms(1)] obtain t b where t: "iterates_to body s t" and "body t = (b, s')"
    by (auto simp: leaves_at_def)
  moreover have "P t" using t assms(2,3) by (rule iterates_to_invariant [where P = P])
  ultimately show ?thesis using assms(3) by blast
qed

end
