(* ===== verification/Peer.thy ===== *)
theory Peer
  imports Handshake Connection Loops
begin

text \<open>
  What \<open>handle_connection\<close> of \<open>src/bin/server.rs\<close> and \<open>run_client\<close> of \<open>src/bin/client.rs\<close>
  share: both own a reader, a writer, session keys and a channel table, and both have a loop that
  receives a packet, ends when the connection is closed, and dispatches on the packet otherwise.

  The contract of such a loop is \<open>consuming_loop\<close>: every iteration takes bytes off the stream,
  whatever the handler of the packet does, as long as the handler does not read itself.
\<close>

record ('c, 'r, 'w, 'g) peer =
  conn :: "('c, 'r, 'w, 'g) endpoint"
  chans :: ChannelManager

definition on_conn ::
  "(('c, 'r, 'w, 'g) endpoint, 'a) stateful \<Rightarrow> (('c, 'r, 'w, 'g, 'z) peer_scheme, 'a) stateful" where
  "on_conn m s = (let (r, e) = m (conn s) in (r, s\<lparr>conn := e\<rparr>))"

definition run_on_conn ::
  "(('c, 'r, 'w, 'g) endpoint, 'a) running \<Rightarrow> (('c, 'r, 'w, 'g, 'z) peer_scheme, 'a) running" where
  "run_on_conn m s = map_option (\<lambda>(r, e). (r, s\<lparr>conn := e\<rparr>)) (m (conn s))"

definition peer_send ::
  "('c, 'r, 'w, 'g) ext_ops \<Rightarrow> SshPacket \<Rightarrow> (('c, 'r, 'w, 'g, 'z) peer_scheme, unit) stateful" where
  "peer_send X pkt = on_conn (send_packet X pkt)"

text \<open>One iteration of the loop; the result says whether the loop ends.\<close>

definition peer_step ::
  "('c, 'r, 'w, 'g) ext_ops \<Rightarrow> (SshPacket \<Rightarrow> (('c, 'r, 'w, 'g, 'z) peer_scheme, bool) stateful) \<Rightarrow>
   (('c, 'r, 'w, 'g, 'z) peer_scheme, bool) stateful" where
  "peer_step X handler s =
     (case on_conn (recv_packet X) s of
        (Ok pkt, s) \<Rightarrow> handler pkt s
      | (Err e, s) \<Rightarrow> if e = ConnectionClosed then (Ok True, s) else (Err e, s)
      | (Panic, s) \<Rightarrow> (Panic, s))"

section \<open>What the steps leave alone\<close>

lemma send_packet_keeps [keeps_rules]: "keeps rdr (send_packet X p)"
proof -
  have "keeps rdr (write_bytes X d)" "keeps rdr (flush_writer X)" "keeps rdr (serialize_packet X p)" for d
    by (simp_all add: keeps_def write_bytes_def flush_writer_def serialize_packet_def split_beta)
  then show ?thesis unfolding send_packet_def
  proof (intro keeps_bind)
    fix data
    have "keeps rdr (bind_st (write_bytes X d) (\<lambda>_. bind_st (case mac of Some m \<Rightarrow> write_bytes X m | None \<Rightarrow> return_st ())
        (\<lambda>_. flush_writer X)))" for d mac
      using \<open>\<And>d. keeps rdr (write_bytes X d)\<close> \<open>keeps rdr (flush_writer X)\<close> by (cases mac) (auto intro!: keeps_rules)
    then show "keeps rdr (\<lambda>s. let (seq, keys) = next_send_seq (sess s);
           mac = (case send_mac_key keys of
                    Some mac_key \<Rightarrow>
                      (let mac_data = to_be_bytes_u32 seq @ data in Some (compute_hmac X mac_key mac_data))
                  | None \<Rightarrow> None);
           (data, keys) = encrypt_data X data keys
       in bind_st (write_bytes X data) (\<lambda>_.
            bind_st (case mac of Some mac \<Rightarrow> write_bytes X mac | None \<Rightarrow> return_st ()) (\<lambda>_.
              flush_writer X)) (s\<lparr>sess := keys\<rparr>))"
      by (simp add: keeps_def Let_def split_beta)
  qed simp
qed

lemma send_packet_keeps_reception: "keeps (\<lambda>e. recv_half (sess e)) (send_packet X p)"
proof -
  let ?part = "\<lambda>e. recv_half (sess e)"
  have keep: "keeps ?part (write_bytes X d)" "keeps ?part (flush_writer X)" "keeps ?part (serialize_packet X p)" for d
    by (simp_all add: keeps_def write_bytes_def flush_writer_def serialize_packet_def split_beta)
  have out: "keeps ?part (bind_st (write_bytes X d) (\<lambda>_. bind_st (case mac of Some m \<Rightarrow> write_bytes X m | None \<Rightarrow> return_st ())
      (\<lambda>_. flush_writer X)))" for d mac
    using keep by (cases mac) (auto intro!: keeps_rules)
  have enc: "recv_half (snd (encrypt_data X d (k\<lparr>send_seq := q\<rparr>))) = recv_half k" for d k q
    by (cases "ciphers k") (simp_all add: encrypt_data_def recv_half_def split_beta)
  show ?thesis unfolding send_packet_def
    by (intro keeps_bind keep(3)) (simp add: keeps_def Let_def split_beta enc out [unfolded keeps_def, rule_format])
qed

lemma on_conn_keeps [keeps_rules]:
  "keeps chans (on_conn m)" "keeps peer.more (on_conn m)"
  "keeps rdr m \<Longrightarrow> keeps (\<lambda>s. rdr (conn s)) (on_conn m)"
  by (simp_all add: keeps_def on_conn_def split_beta)

lemma peer_send_keeps [keeps_rules]:
  "keeps chans (peer_send X p)" "keeps peer.more (peer_send X p)" "keeps (\<lambda>s. rdr (conn s)) (peer_send X p)"
  by (simp_all add: peer_send_def keeps_rules)

lemma keeps_conn_rdr: "keeps conn m \<Longrightarrow> keeps (\<lambda>s. rdr (conn s)) m"
  by (simp add: keeps_def)

lemma recv_packet_shrinks:
  assumes "reader_law X avail" and "recv_packet X t = (Ok pkt, t')"
  shows "length (avail (rdr t')) < length (avail (rdr t))"
proof -
  from assms obtain used tag where "avail (rdr t) = used @ tag @ avail (rdr t')" "block_size (sess t) \<le> length used"
    by (rule recv_packet_OkD) blast
  moreover have "0 < block_size (sess t)" by (simp add: block_size_def AES_BLOCK_SIZE_def)
  ultimately have "0 < length used" by linarith
  with \<open>avail (rdr t) = used @ tag @ avail (rdr t')\<close> show ?thesis by simp
qed

interpretation peer_loop: consuming_loop "peer_step X handler" "\<lambda>s. length (avail (rdr (conn s)))"
    "reader_law X avail \<and> (\<forall>pkt. keeps (\<lambda>s. rdr (conn s)) (handler pkt))"
  for X :: "('c, 'r, 'w, 'g) ext_ops" and avail :: "'r \<Rightarrow> bytes"
    and handler :: "SshPacket \<Rightarrow> (('c, 'r, 'w, 'g, 'z) peer_scheme, bool) stateful"
proof
  fix s s' :: "('c, 'r, 'w, 'g, 'z) peer_scheme"
  assume law: "reader_law X avail \<and> (\<forall>pkt. keeps (\<lambda>s. rdr (conn s)) (handler pkt))"
    and step: "peer_step X handler s = (Ok False, s')"
  from step obtain pkt e where r: "recv_packet X (conn s) = (Ok pkt, e)"
    and m: "handler pkt (s\<lparr>conn := e\<rparr>) = (Ok False, s')"
    by (cases "recv_packet X (conn s)") (auto simp: peer_step_def on_conn_def split: outcome.splits if_splits)
  have "rdr (conn s') = rdr e" using keepsD [OF law [THEN conjunct2, rule_format] m] by simp
  with recv_packet_shrinks [OF conjunct1 [OF law] r]
  show "length (avail (rdr (conn s'))) < length (avail (rdr (conn s)))" by simp
qed

lemma run_on_conn_returns:
  assumes "\<And>e. \<exists>r e'. m e = Some (r, e')"
  shows "\<exists>r s'. run_on_conn m s = Some (r, s')"
proof -
  obtain r e where "m (conn s) = Some (r, e)" using assms by blast
  then show ?thesis by (simp add: run_on_conn_def)
qed

end
