(* ===== verification/Server.thy ===== *)
theory Server
  imports Sftp Peer
begin

text \<open>
  The server of \<open>src/bin/server.rs\<close>: the phases of \<open>handle_connection\<close> behind the handshake
  (service request, authentication loop, channel loop) and \<open>execute_command\<close>.

  A connection task owns its stream, session keys, channel table and file transfer handler,
  the record \<open>server_state\<close>; running a program is an operation on the state of the operating
  system, part of the record \<open>server_ops\<close> of everything outside the program. The two loops
  are instances of \<open>loop_st\<close>. Logging is left out.

  Shown here: a connection is authenticated only with a password or a key of the database,
  and before that no channel is opened, no file request is processed and no program is run;
  on a finite input a connection ends; and how requests on channels are answered.
\<close>

section \<open>The outside world and the state of a connection\<close>

record ('c, 'r, 'w, 'g, 'f, 'h, 'p) server_ops =
  net :: "('c, 'r, 'w, 'g) ext_ops"
  files :: "('f, 'h) fs_ops"
  command_output :: "'p \<Rightarrow> string \<Rightarrow> string list \<Rightarrow> (string + bytes \<times> bytes) \<times> 'p"
  chan_iter :: channel_iter
  overflow_checks :: bool

record ('c, 'r, 'w, 'g, 'f, 'p) server_state = "('c, 'r, 'w, 'g) peer" +
  sftp_state :: "SftpHandler \<times> 'f"
  procs :: 'p

section \<open>Configuration\<close>

record ServerConfig =
  bind_addr :: string
  port :: u16
  sftp_root :: string

definition ServerConfig_default :: ServerConfig where
  "ServerConfig_default = \<lparr>bind_addr = ''0.0.0.0'', port = 2222, sftp_root = ''/tmp/swiftssh''\<rparr>"

text \<open>The database \<open>main\<close> sets up.\<close>

definition server_users :: UserDatabase where
  "server_users =
     (let user_db = UserDatabase_new;
          user_db = add_password_user ''admin'' ''admin'' user_db;
          user_db = add_password_user ''user'' ''password'' user_db
      in user_db)"

section \<open>Service request and authentication\<close>

definition server_service :: "('c, 'r, 'w, 'g) ext_ops \<Rightarrow> (('c, 'r, 'w, 'g) endpoint, unit) stateful" where
  "server_service X =
     bind_st (expect_packet X ServiceRequest (Protocol ''Expected SERVICE_REQUEST'')) (\<lambda>service_req.
     bind_st (lift_st (read_utf8 (cursor_new (payload service_req)))) (\<lambda>(service_name, _).
       send_packet X (build_service_accept service_name)))"

definition auth_methods :: "string list" where
  "auth_methods = [''password'', ''publickey'']"

definition credential_accepted :: "UserDatabase \<Rightarrow> AuthRequest \<Rightarrow> bool" where
  "credential_accepted db req =
     (case credential req of
        Password password \<Rightarrow> verify_password db (username req) password
      | PublicKey alg blob sig \<Rightarrow> is_key_authorized db (username req) blob)"

text \<open>One iteration of the authentication loop; the result is the new value of \<open>authenticated\<close>.\<close>

definition server_auth_step ::
  "('c, 'r, 'w, 'g) ext_ops \<Rightarrow> UserDatabase \<Rightarrow> (('c, 'r, 'w, 'g) endpoint, bool) stateful" where
  "server_auth_step X db =
     bind_st (expect_packet X UserAuthRequest (Protocol ''Expected USERAUTH_REQUEST'')) (\<lambda>auth_pkt.
     bind_st (lift_st (AuthRequest_parse (payload auth_pkt))) (\<lambda>auth_req.
       if credential_accepted db auth_req
       then bind_st (send_packet X build_auth_success) (\<lambda>_. return_st True)
       else bind_st (send_packet X (build_auth_failure auth_methods False)) (\<lambda>_. return_st False)))"

section \<open>Running a command\<close>

text \<open>\<open>str::split_whitespace\<close>: the length of the white space character a string starts with, if any,
  and the parts between white space.\<close>

definition white_space :: "bytes list" where
  "white_space =
     map (\<lambda>b. [b]) [0x09, 0x0A, 0x0B, 0x0C, 0x0D, 0x20] @ [[0xC2, 0x85], [0xC2, 0xA0], [0xE1, 0x9A, 0x80]] @
     map (\<lambda>b. [0xE2, 0x80, b]) [0x80, 0x81, 0x82, 0x83, 0x84, 0x85, 0x86, 0x87, 0x88, 0x89, 0x8A, 0xA8, 0xA9, 0xAF] @
     [[0xE2, 0x81, 0x9F], [0xE3, 0x80, 0x80]]"

definition white_len :: "string \<Rightarrow> nat" where
  "white_len s =
     (case List.find (\<lambda>w. take (length w) (as_bytes s) = w) white_space of
        None \<Rightarrow> 0
      | Some w \<Rightarrow> length w)"

function split_white :: "string \<Rightarrow> string \<Rightarrow> string list" where
  "split_white cur s =
     (if s = [] then (if cur = [] then [] else [cur])
      else if white_len s = 0 then split_white (cur @ [hd s]) (tl s)
      else (if cur = [] then [] else [cur]) @ split_white [] (drop (white_len s) s))"
  by pat_completeness auto
termination
  by (relation "measure (\<lambda>(cur, s). length s)") auto

declare split_white.simps [simp del]

definition split_whitespace :: "string \<Rightarrow> string list" where
  "split_whitespace s = split_white [] s"

definition execute_command ::
  "('c, 'r, 'w, 'g, 'f, 'h, 'p) server_ops \<Rightarrow> string \<Rightarrow> (('c, 'r, 'w, 'g, 'f, 'p) server_state, string) stateful" where
  "execute_command W command s =
     (case split_whitespace command of
        [] \<Rightarrow> (Ok [], s)
      | prog # args \<Rightarrow>
          (case command_output W (procs s) prog args of
             (Inr (out, err), p) \<Rightarrow>
               (let result = from_utf8_lossy out;
                    stderr = from_utf8_lossy err;
                    result = (if stderr \<noteq> [] then result @ stderr else result)
                in (Ok result, s\<lparr>procs := p\<rparr>))
           | (Inl e, p) \<Rightarrow> (Ok (''Command failed: '' @ e @ [CHR 0x0A]), s\<lparr>procs := p\<rparr>)))"

section \<open>Messages on channels\<close>

abbreviation server_send ::
  "('c, 'r, 'w, 'g, 'f, 'h, 'p) server_ops \<Rightarrow> SshPacket \<Rightarrow> (('c, 'r, 'w, 'g, 'f, 'p) server_state, unit) stateful" where
  "server_send W \<equiv> peer_send (net W)"

definition server_accept ::
  "('c, 'r, 'w, 'g, 'f, 'h, 'p) server_ops \<Rightarrow> ChannelOpenMsg \<Rightarrow> (('c, 'r, 'w, 'g, 'f, 'p) server_state, u32) stateful" where
  "server_accept W msg s =
     (let (r, m) = accept_channel (overflow_checks W) (open_sender_channel msg) (open_channel_type msg)
                     (open_initial_window msg) (open_max_packet msg) (chans s)
      in (r, s\<lparr>chans := m\<rparr>))"

definition server_channel_open ::
  "('c, 'r, 'w, 'g, 'f, 'h, 'p) server_ops \<Rightarrow> SshPacket \<Rightarrow> (('c, 'r, 'w, 'g, 'f, 'p) server_state, unit) stateful" where
  "server_channel_open W pkt =
     bind_st (lift_st (ChannelOpenMsg_parse (payload pkt))) (\<lambda>msg.
     bind_st (server_accept W msg) (\<lambda>local_id.
       server_send W (build_channel_open_confirmation (open_sender_channel msg) local_id
         DEFAULT_WINDOW_SIZE DEFAULT_MAX_PACKET_SIZE)))"

text \<open>The channel a request names, by the code's lookup.\<close>

definition lookup_channel ::
  "('c, 'r, 'w, 'g, 'f, 'h, 'p) server_ops \<Rightarrow> u32 \<Rightarrow> (('c, 'r, 'w, 'g, 'f, 'p) server_state, u32) stateful" where
  "lookup_channel W recipient s =
     (case find_by_remote_id (chan_iter W) (chans s) recipient of
        None \<Rightarrow> (Err (ChannelErr ''Unknown channel''), s)
      | Some ch \<Rightarrow> (Ok (remote_id ch), s))"

definition channel_reply ::
  "('c, 'r, 'w, 'g, 'f, 'h, 'p) server_ops \<Rightarrow> MessageType \<Rightarrow> ChannelRequestMsg \<Rightarrow>
   (('c, 'r, 'w, 'g, 'f, 'p) server_state, unit) stateful" where
  "channel_reply W t msg =
     (if req_want_reply msg
      then bind_st (lookup_channel W (req_recipient_channel msg)) (\<lambda>rid.
             server_send W (SshPacket_new t (write_u32 [] rid)))
      else return_st ())"

definition server_exec ::
  "('c, 'r, 'w, 'g, 'f, 'h, 'p) server_ops \<Rightarrow> ChannelRequestMsg \<Rightarrow>
   (('c, 'r, 'w, 'g, 'f, 'p) server_state, unit) stateful" where
  "server_exec W msg =
     bind_st (lift_st (read_utf8 (cursor_new (req_data msg)))) (\<lambda>(command, _).
     bind_st (execute_command W command) (\<lambda>output.
     bind_st (lookup_channel W (req_recipient_channel msg)) (\<lambda>rid.
     bind_st (if req_want_reply msg
              then server_send W (SshPacket_new ChannelSuccess (write_u32 [] rid))
              else return_st ()) (\<lambda>_.
     bind_st (server_send W (build_channel_data rid (as_bytes output))) (\<lambda>_.
     bind_st (server_send W (build_channel_eof rid)) (\<lambda>_.
       server_send W (build_channel_close rid)))))))"

definition server_subsystem ::
  "('c, 'r, 'w, 'g, 'f, 'h, 'p) server_ops \<Rightarrow> ChannelRequestMsg \<Rightarrow>
   (('c, 'r, 'w, 'g, 'f, 'p) server_state, unit) stateful" where
  "server_subsystem W msg =
     bind_st (lift_st (read_utf8 (cursor_new (req_data msg)))) (\<lambda>(subsystem, _).
       if subsystem = ''sftp'' then channel_reply W ChannelSuccess msg
       else channel_reply W ChannelFailure msg)"

definition server_channel_request ::
  "('c, 'r, 'w, 'g, 'f, 'h, 'p) server_ops \<Rightarrow> SshPacket \<Rightarrow> (('c, 'r, 'w, 'g, 'f, 'p) server_state, unit) stateful" where
  "server_channel_request W pkt =
     bind_st (lift_st (ChannelRequestMsg_parse (payload pkt))) (\<lambda>msg.
       if req_request_type msg = ''exec'' then server_exec W msg
       else if req_request_type msg = ''shell'' then channel_reply W ChannelSuccess msg
       else if req_request_type msg = ''subsystem'' then server_subsystem W msg
       else if req_request_type msg = ''pty-req'' then channel_reply W ChannelSuccess msg
       else channel_reply W ChannelFailure msg)"

definition server_sftp ::
  "('c, 'r, 'w, 'g, 'f, 'h, 'p) server_ops \<Rightarrow> SftpPacket \<Rightarrow> (('c, 'r, 'w, 'g, 'f, 'p) server_state, SftpPacket) stateful" where
  "server_sftp W pkt s =
     (let (r, st) = handle_request (overflow_checks W) (files W) pkt (sftp_state s)
      in (r, s\<lparr>sftp_state := st\<rparr>))"

definition server_channel_data ::
  "('c, 'r, 'w, 'g, 'f, 'h, 'p) server_ops \<Rightarrow> SshPacket \<Rightarrow> (('c, 'r, 'w, 'g, 'f, 'p) server_state, unit) stateful" where
  "server_channel_data W pkt =
     bind_st (lift_st (ChannelDataMsg_parse (payload pkt))) (\<lambda>msg.
       let d = data_data msg in
       if length d \<ge> 9
       then let sftp_len = unat (from_be_bytes_u32 (take 4 d)) in
            if sftp_len + 4 \<le> length d \<and> sftp_len \<ge> 5
            then (case SftpPacket_decode (take sftp_len (drop 4 d)) of
                    Ok sftp_pkt \<Rightarrow>
                      bind_st (server_sftp W sftp_pkt) (\<lambda>response.
                      bind_st (lookup_channel W (data_recipient_channel msg)) (\<lambda>rid.
                        server_send W (build_channel_data rid (SftpPacket_encode response))))
                  | Err _ \<Rightarrow> return_st ()
                  | Panic \<Rightarrow> lift_st Panic)
            else return_st ()
       else return_st ())"

definition update_channel ::
  "('c, 'r, 'w, 'g, 'f, 'h, 'p) server_ops \<Rightarrow> u32 \<Rightarrow> (Channel \<Rightarrow> Channel) \<Rightarrow>
   (('c, 'r, 'w, 'g, 'f, 'p) server_state, unit) stateful" where
  "update_channel W recipient upd s =
     (Ok (), s\<lparr>chans := find_by_remote_id_mut (chan_iter W) recipient upd (chans s)\<rparr>)"

definition server_window_adjust ::
  "('c, 'r, 'w, 'g, 'f, 'h, 'p) server_ops \<Rightarrow> SshPacket \<Rightarrow> (('c, 'r, 'w, 'g, 'f, 'p) server_state, unit) stateful" where
  "server_window_adjust W pkt =
     bind_st (lift_st (read_u32 (cursor_new (payload pkt)))) (\<lambda>(recipient, c).
     bind_st (lift_st (read_u32 c)) (\<lambda>(bytes_to_add, c).
       update_channel W recipient
         (\<lambda>ch. ch\<lparr>remote_window := saturating_add_u32 (remote_window ch) bytes_to_add\<rparr>)))"

definition server_channel_eof ::
  "('c, 'r, 'w, 'g, 'f, 'h, 'p) server_ops \<Rightarrow> SshPacket \<Rightarrow> (('c, 'r, 'w, 'g, 'f, 'p) server_state, unit) stateful" where
  "server_channel_eof W pkt =
     bind_st (lift_st (read_u32 (cursor_new (payload pkt)))) (\<lambda>(recipient, c).
       update_channel W recipient (\<lambda>ch. ch\<lparr>eof_received := True\<rparr>))"

definition server_channel_close ::
  "('c, 'r, 'w, 'g, 'f, 'h, 'p) server_ops \<Rightarrow> SshPacket \<Rightarrow> (('c, 'r, 'w, 'g, 'f, 'p) server_state, unit) stateful" where
  "server_channel_close W pkt =
     bind_st (lift_st (read_u32 (cursor_new (payload pkt)))) (\<lambda>(recipient, c) s.
       case find_by_remote_id (chan_iter W) (chans s) recipient of
         Some ch \<Rightarrow> (if \<not> closed ch then server_send W (build_channel_close (remote_id ch)) s else (Ok (), s))
       | None \<Rightarrow> (Ok (), s))"

text \<open>One message of the channel loop; the result says whether the loop ends.\<close>

definition server_message ::
  "('c, 'r, 'w, 'g, 'f, 'h, 'p) server_ops \<Rightarrow> SshPacket \<Rightarrow> (('c, 'r, 'w, 'g, 'f, 'p) server_state, bool) stateful" where
  "server_message W pkt =
     (case from_u8 (msg_type pkt) of
        Some ChannelOpen \<Rightarrow> bind_st (server_channel_open W pkt) (\<lambda>_. return_st False)
      | Some ChannelRequest \<Rightarrow> bind_st (server_channel_request W pkt) (\<lambda>_. return_st False)
      | Some ChannelData \<Rightarrow> bind_st (server_channel_data W pkt) (\<lambda>_. return_st False)
      | Some ChannelWindowAdjust \<Rightarrow> bind_st (server_window_adjust W pkt) (\<lambda>_. return_st False)
      | Some ChannelEof \<Rightarrow> bind_st (server_channel_eof W pkt) (\<lambda>_. return_st False)
      | Some ChannelClose \<Rightarrow> bind_st (server_channel_close W pkt) (\<lambda>_. return_st False)
      | Some Disconnect \<Rightarrow> return_st True
      | _ \<Rightarrow> return_st False)"

definition server_step ::
  "('c, 'r, 'w, 'g, 'f, 'h, 'p) server_ops \<Rightarrow> (('c, 'r, 'w, 'g, 'f, 'p) server_state, bool) stateful" where
  "server_step W = peer_step (net W) (server_message W)"

section \<open>A connection\<close>

definition server_login ::
  "('c, 'r, 'w, 'g) ext_ops \<Rightarrow> UserDatabase \<Rightarrow> (('c, 'r, 'w, 'g) endpoint, unit) running" where
  "server_login X db =
     then_run (run_st (bind_st (server_handshake X) (\<lambda>_. server_service X))) (\<lambda>_.
       loop_st (server_auth_step X db))"

text \<open>The connection from the start of the handshake, on a given state of the task.\<close>

definition run_connection ::
  "('c, 'r, 'w, 'g, 'f, 'h, 'p) server_ops \<Rightarrow> UserDatabase \<Rightarrow> (('c, 'r, 'w, 'g, 'f, 'p) server_state, unit) running" where
  "run_connection W db =
     then_run (run_on_conn (server_login (net W) db)) (\<lambda>_. loop_st (server_step W))"

text \<open>\<open>handle_connection\<close> on the two halves of a stream, the random source and the state of the file
  system and of the processes.\<close>

definition server_start ::
  "ServerConfig \<Rightarrow> 'r \<Rightarrow> 'w \<Rightarrow> 'g \<Rightarrow> 'f \<Rightarrow> 'p \<Rightarrow> ('c, 'r, 'w, 'g, 'f, 'p) server_state" where
  "server_start config r w g f p =
     \<lparr>conn = \<lparr>rdr = r, wtr = w, sess = SessionKeys_new, rng = g\<rparr>, chans = ChannelManager_new,
      sftp_state = (SftpHandler_new (sftp_root config), f), procs = p\<rparr>"

definition handle_connection ::
  "('c, 'r, 'w, 'g, 'f, 'h, 'p) server_ops \<Rightarrow> UserDatabase \<Rightarrow> ServerConfig \<Rightarrow> 'r \<Rightarrow> 'w \<Rightarrow> 'g \<Rightarrow> 'f \<Rightarrow> 'p \<Rightarrow>
   (unit outcome \<times> ('c, 'r, 'w, 'g, 'f, 'p) server_state) option" where
  "handle_connection W db config r w g f p = run_connection W db (server_start config r w g f p)"

section \<open>What the steps leave alone\<close>

lemma server_parts_keep [keeps_rules]:
  "keeps conn (execute_command W c)" "keeps conn (lookup_channel W i)" "keeps conn (server_sftp W q)"
  "keeps conn (update_channel W i upd)"
  "keeps chans (execute_command W c)" "keeps chans (lookup_channel W i)" "keeps chans (server_sftp W q)"
  by (simp_all add: keeps_def execute_command_def lookup_channel_def server_sftp_def update_channel_def Let_def split_beta
      split: list.splits prod.splits sum.splits option.splits)

lemma server_accept_keeps [keeps_rules]: "keeps conn (server_accept W msg)"
  by (simp add: keeps_def server_accept_def split_beta)

lemma server_open_keeps: "keeps (\<lambda>s. rdr (conn s)) (server_channel_open W p)"
  unfolding server_channel_open_def by (intro keeps_rules keeps_conn_rdr)

lemma server_close_keeps: "keeps (\<lambda>s. rdr (conn s)) (server_channel_close W p)"
proof -
  have "keeps (\<lambda>s. rdr (conn s)) (\<lambda>s. case find_by_remote_id (chan_iter W) (chans s) i of
         Some ch \<Rightarrow> (if \<not> closed ch then server_send W (build_channel_close (remote_id ch)) s else (Ok (), s))
       | None \<Rightarrow> (Ok (), s))" for i
    by (simp add: keeps_def peer_send_keeps(3) [unfolded keeps_def, rule_format] split: option.splits)
  then show ?thesis unfolding server_channel_close_def by (intro keeps_rules) (simp add: split_beta)
qed

lemma server_message_keeps: "keeps (\<lambda>s. rdr (conn s)) (server_message W p)"
proof -
  have "keeps (\<lambda>s. rdr (conn s)) (server_channel_request W p)"
    unfolding server_channel_request_def server_exec_def server_subsystem_def channel_reply_def
    by (intro keeps_rules keeps_conn_rdr)
  moreover have "keeps (\<lambda>s. rdr (conn s)) (server_channel_data W p)"
    unfolding server_channel_data_def Let_def by (intro keeps_rules keeps_conn_rdr)
  moreover have "keeps (\<lambda>s. rdr (conn s)) (server_window_adjust W p)" "keeps (\<lambda>s. rdr (conn s)) (server_channel_eof W p)"
    unfolding server_window_adjust_def server_channel_eof_def by (intro keeps_rules keeps_conn_rdr)+
  ultimately show ?thesis
    using server_open_keeps server_close_keeps unfolding server_message_def
    by (auto intro!: keeps_rules split: option.splits MessageType.splits)
qed

section \<open>Connections end\<close>

interpretation auth_loop: consuming_loop "server_auth_step X db" "\<lambda>e. length (avail (rdr e))" "reader_law X avail"
  for X :: "('c, 'r, 'w, 'g) ext_ops" and db :: UserDatabase and avail :: "'r \<Rightarrow> bytes"
proof
  fix e e' :: "('c, 'r, 'w, 'g) endpoint"
  assume law: "reader_law X avail" and step: "server_auth_step X db e = (Ok False, e')"
  from step obtain pkt e1 q where r: "recv_packet X e = (Ok pkt, e1)" and "send_packet X q e1 = (Ok (), e')"
    unfolding server_auth_step_def expect_packet_def
    by (auto elim!: bind_st_OkE simp: return_st_def fail_st_def lift_st_def split: if_splits)
  then have "rdr e' = rdr e1" using keepsD [OF send_packet_keeps] by blast
  with recv_packet_shrinks [OF law r] show "length (avail (rdr e')) < length (avail (rdr e))" by simp
qed

lemma channel_loop_returns:
  "reader_law (net W) avail \<Longrightarrow> \<exists>r s'. loop_st (server_step W) s = Some (r, s')"
  unfolding server_step_def by (rule peer_loop.returns) (simp add: server_message_keeps)

lemma connection_returns:
  assumes "reader_law (net W) avail"
  shows "\<exists>res s'. handle_connection W db config r w g f p = Some (res, s')"
  unfolding handle_connection_def run_connection_def server_login_def
  by (intro then_run_returns run_on_conn_returns run_st_returns auth_loop.returns [OF assms] channel_loop_returns [OF assms])

section \<open>Channels of the server\<close>

definition all_open :: "ChannelManager \<Rightarrow> bool" where
  "all_open m \<longleftrightarrow> (\<forall>k ch. channels m k = Some ch \<longrightarrow> \<not> closed ch)"

lemma all_open_accept: "all_open m \<Longrightarrow> accept_channel chk rid t w x m = (r, m') \<Longrightarrow> all_open m'"
  by (auto simp: all_open_def accept_channel_def Channel_new_def Let_def split: outcome.splits if_splits)

lemma all_open_update:
  "(\<And>ch. closed (upd ch) = closed ch) \<Longrightarrow> all_open m \<Longrightarrow> all_open (find_by_remote_id_mut iter rid upd m)"
  by (auto simp: all_open_def find_by_remote_id_mut_def get_mut_def split: option.splits if_splits)

lemma chans_of_requests:
  "keeps chans (server_channel_request W p)" "keeps chans (server_channel_data W p)" "keeps chans (server_channel_close W p)"
proof -
  show "keeps chans (server_channel_request W p)"
    unfolding server_channel_request_def server_exec_def server_subsystem_def channel_reply_def
    by (intro keeps_rules)
  show "keeps chans (server_channel_data W p)"
    unfolding server_channel_data_def Let_def by (intro keeps_rules)
  have "keeps chans (\<lambda>s. case find_by_remote_id (chan_iter W) (chans s) i of
         Some ch \<Rightarrow> (if \<not> closed ch then server_send W (build_channel_close (remote_id ch)) s else (Ok (), s))
       | None \<Rightarrow> (Ok (), s))" for i
    by (simp add: keeps_def peer_send_keeps(1) [unfolded keeps_def, rule_format] split: option.splits)
  then show "keeps chans (server_channel_close W p)"
    unfolding server_channel_close_def by (intro keeps_rules) (simp add: split_beta)
qed

lemma all_open_opened:
  assumes "server_channel_open W p s = (r, s')" and "all_open (chans s)"
  shows "all_open (chans s')"
proof -
  have "all_open (chans (snd (server_accept W msg s)))" for msg
    using all_open_accept [OF assms(2)] by (auto simp: server_accept_def split: prod.splits)
  moreover have "chans (snd (server_send W q t)) = chans t" for q and t :: "('a, 'b, 'c, 'd, 'e, 'f) server_state"
    by (rule peer_send_keeps(1) [unfolded keeps_def, rule_format])
  ultimately show ?thesis
    using assms by (auto simp: server_channel_open_def bind_st_def lift_st_def split: outcome.splits prod.splits)
      (metis snd_conv)+
qed

lemma all_open_updated:
  "server_window_adjust W p s = (r, s') \<Longrightarrow> all_open (chans s) \<Longrightarrow> all_open (chans s')"
  "server_channel_eof W p s = (r, s') \<Longrightarrow> all_open (chans s) \<Longrightarrow> all_open (chans s')"
  by (auto simp: server_window_adjust_def server_channel_eof_def update_channel_def bind_st_def lift_st_def
      intro!: all_open_update split: outcome.splits prod.splits)

lemma bind_return_state: "snd (bind_st m (\<lambda>_. return_st x) s) = snd (m s)"
  by (cases "m s"; cases "fst (m s)") (simp_all add: bind_st_def return_st_def)

lemma server_step_all_open:
  assumes "server_step W s = (r, s')" and "all_open (chans s)"
  shows "all_open (chans s')"
proof -
  obtain r1 e where r1: "recv_packet (net W) (conn s) = (r1, e)" by (cases "recv_packet (net W) (conn s)")
  let ?s = "s\<lparr>conn := e\<rparr>"
  have "all_open (chans (snd (server_message W pkt ?s)))" for pkt
  proof -
    have "all_open (chans ?s)" using assms(2) by simp
    then have "all_open (chans (snd (server_channel_open W pkt ?s)))"
      "all_open (chans (snd (server_window_adjust W pkt ?s)))" "all_open (chans (snd (server_channel_eof W pkt ?s)))"
      "all_open (chans (snd (server_channel_request W pkt ?s)))" "all_open (chans (snd (server_channel_data W pkt ?s)))"
      "all_open (chans (snd (server_channel_close W pkt ?s)))"
      using all_open_opened all_open_updated chans_of_requests [unfolded keeps_def, rule_format, of W pkt]
      by (metis prod.collapse)+
    then show ?thesis
      using \<open>all_open (chans ?s)\<close> unfolding server_message_def
      by (simp add: bind_return_state return_st_def split: option.splits MessageType.splits)
  qed
  with assms r1 show ?thesis
    by (auto simp: server_step_def peer_step_def on_conn_def split: outcome.splits if_splits) (metis snd_conv)
qed

section \<open>Files of the server\<close>

lemma sftp_keeps [keeps_rules]:
  "keeps sftp_state (on_conn m)" "keeps sftp_state (server_send W p)" "keeps sftp_state (execute_command W c)"
  "keeps sftp_state (lookup_channel W i)" "keeps sftp_state (update_channel W i upd)" "keeps sftp_state (server_accept W msg)"
  by (simp_all add: keeps_def on_conn_def peer_send_def execute_command_def lookup_channel_def update_channel_def
      server_accept_def Let_def split_beta split: list.splits prod.splits sum.splits option.splits)

lemma sftp_of_others:
  "keeps sftp_state (server_channel_open W p)" "keeps sftp_state (server_channel_request W p)"
  "keeps sftp_state (server_window_adjust W p)" "keeps sftp_state (server_channel_eof W p)"
  "keeps sftp_state (server_channel_close W p)"
proof -
  show "keeps sftp_state (server_channel_open W p)" "keeps sftp_state (server_channel_request W p)"
    "keeps sftp_state (server_window_adjust W p)" "keeps sftp_state (server_channel_eof W p)"
    unfolding server_channel_open_def server_channel_request_def server_exec_def server_subsystem_def channel_reply_def
      server_window_adjust_def server_channel_eof_def
    by (intro keeps_rules)+
  have "keeps sftp_state (\<lambda>s. case find_by_remote_id (chan_iter W) (chans s) i of
         Some ch \<Rightarrow> (if \<not> closed ch then server_send W (build_channel_close (remote_id ch)) s else (Ok (), s))
       | None \<Rightarrow> (Ok (), s))" for i
    by (simp add: keeps_def sftp_keeps(2) [unfolded keeps_def, rule_format] split: option.splits)
  then show "keeps sftp_state (server_channel_close W p)"
    unfolding server_channel_close_def by (intro keeps_rules) (simp add: split_beta)
qed

definition file_step :: "('c, 'r, 'w, 'g, 'f, 'h, 'p) server_ops \<Rightarrow> SftpHandler \<times> 'f \<Rightarrow> SftpHandler \<times> 'f \<Rightarrow> bool" where
  "file_step W a b \<longleftrightarrow> (\<exists>q r. handle_request (overflow_checks W) (files W) q a = (r, b))"

lemma server_sftp_evolves [evolve_rules]: "evolves (file_step W) sftp_state (server_sftp W q)"
proof -
  have "file_step W (sftp_state s) (snd (handle_request (overflow_checks W) (files W) q (sftp_state s)))" for s
    unfolding file_step_def by (metis prod.collapse)
  then show ?thesis by (auto simp: evolves_def server_sftp_def split_beta)
qed

lemma server_message_evolves:
  assumes "evolves R part (server_channel_open W p)" and "evolves R part (server_channel_request W p)"
    and "evolves R part (server_channel_data W p)" and "evolves R part (server_window_adjust W p)"
    and "evolves R part (server_channel_eof W p)" and "evolves R part (server_channel_close W p)"
  shows "evolves R part (server_message W p)"
  using assms unfolding server_message_def
  by (auto simp: evolves_simple intro!: evolves_then_return split: option.splits MessageType.splits)

lemma server_message_files: "evolves (file_step W) sftp_state (server_message W p)"
proof -
  have "evolves (file_step W) sftp_state (server_channel_data W p)"
    unfolding server_channel_data_def Let_def
    by (intro evolve_rules evolves_keeps [OF sftp_keeps(2)] evolves_keeps [OF sftp_keeps(4)])
  then show ?thesis by (intro server_message_evolves sftp_of_others [THEN evolves_keeps])
qed

lemma file_steps_confined:
  assumes "(file_step W)\<^sup>*\<^sup>* a b" and "stable_root (files W) r root" and "confined_fs (files W) view hp"
    and "\<not> path_starts_with q root" and "paths_below r root (fst a)"
  shows "paths_below r root (fst b) \<and> view (snd b) q = view (snd a) q"
  using assms(1)
proof induction
  case base
  then show ?case using assms(5) by simp
next
  case (step b c)
  from step.hyps(2) obtain pkt r' where "effect (overflow_checks W) (files W) pkt b r' c"
    unfolding file_step_def using handle_request_effect by blast
  with step.IH effect_paths_below [OF _ assms(2)] effect_confined [OF _ assms(2) _ assms(3,4)]
  show ?case by metis
qed

text \<open>With overflow checks the table of channels changes by steps of its state machine only.\<close>

lemma server_message_channels:
  assumes "overflow_checks W"
  shows "evolves (mgr_step (chan_iter W) True) chans (server_message W p)"
proof -
  let ?R = "mgr_step (chan_iter W) True"
  have "evolves ?R chans (server_accept W msg)" for msg
    unfolding evolves_def
  proof
    fix s :: "('a, 'b, 'c, 'd, 'e, 'g) server_state"
    obtain r m where acc: "accept_channel True (open_sender_channel msg) (open_channel_type msg)
        (open_initial_window msg) (open_max_packet msg) (chans s) = (r, m)" by fastforce
    have "m = chans s \<or> ?R (chans s) m"
    proof (cases "unat (next_id (chans s)) + 1 < 2 ^ 32")
      case True
      with acc show ?thesis by (blast intro: mgr_step.accepts)
    next
      case False
      with acc show ?thesis by (auto simp: accept_channel_def add_u32_def Let_def)
    qed
    then show "?R\<^sup>*\<^sup>* (chans s) (chans (snd (server_accept W msg s)))"
      using acc assms by (auto simp: server_accept_def)
  qed
  then have "evolves ?R chans (server_channel_open W p)"
    unfolding server_channel_open_def by (intro evolve_rules evolves_keeps [OF peer_send_keeps(1)])
  moreover have upd: "evolves ?R chans (update_channel W i upd)" if "\<And>ch. local_id (upd ch) = local_id ch" for i upd
    using that by (auto simp: evolves_def update_channel_def intro!: r_into_rtranclp mgr_step.finds [OF _ refl])
  have "evolves ?R chans (server_window_adjust W p)" "evolves ?R chans (server_channel_eof W p)"
    unfolding server_window_adjust_def server_channel_eof_def by (intro evolve_rules upd; simp)+
  ultimately show ?thesis by (intro server_message_evolves chans_of_requests [THEN evolves_keeps])
qed

lemma server_step_evolves:
  assumes "\<And>p. evolves R part (server_message W p)" and "\<And>s e. part (s\<lparr>conn := e\<rparr>) = part s"
    and "server_step W u = (b, u')"
  shows "R\<^sup>*\<^sup>* (part u) (part u')"
  using assms(1) [THEN evolvesD] assms(2,3)
  by (auto simp: server_step_def peer_step_def on_conn_def split: prod.splits outcome.splits if_splits) metis

lemma server_loop_evolves:
  assumes "\<And>p. evolves R part (server_message W p)" and "\<And>s e. part (s\<lparr>conn := e\<rparr>) = part s"
    and "run_connection W db s = Some (r, s')"
  shows "R\<^sup>*\<^sup>* (part s) (part s')"
proof -
  have step: "R\<^sup>*\<^sup>* (part u) (part u')" if "server_step W u = (b, u')" for u b u'
    using assms(1,2) that by (rule server_step_evolves)
  have "R\<^sup>*\<^sup>* (part t) (part s')" if "loop_st (server_step W) t = Some (r, s')" for t
    by (rule loop_st_invariant [OF that, where P = "\<lambda>u. R\<^sup>*\<^sup>* (part t) (part u)"]) (auto dest: step)
  with assms(2,3) show ?thesis
    by (fastforce simp: run_connection_def then_run_def run_on_conn_def split: option.splits prod.splits outcome.splits)
qed

text \<open>A world to evaluate the server in.\<close>

definition demo_world :: "(u8, bytes, bytes, unit, string \<rightharpoonup> bytes, string \<times> nat, string list) server_ops" where
  "demo_world =
     \<lparr>net = demo_ext, files = demo_fs,
      command_output = (\<lambda>p prog args. (Inr (as_bytes prog, []), p @ [prog])),
      chan_iter = demo_iter, overflow_checks = True\<rparr>"

lemma demo_reader: "reader_law (net demo_world) (\<lambda>r. r)"
  using demo_link_laws by (simp add: demo_world_def link_laws_def)

section \<open>Two consequences of the order of checks\<close>

text \<open>A public key that is authorized is enough to log in: a request without a signature is accepted,
  so the private key need not be known.\<close>

lemma key_alone_accepted:
  assumes "str_ok u" and "str_ok svc" and "str_ok alg" and "blob_ok blob" and "is_key_authorized db u blob"
    and "recv_packet X e = (Ok (build_pubkey_auth_request u svc alg blob None), e1)"
  shows "server_auth_step X db e = bind_st (send_packet X build_auth_success) (\<lambda>_. return_st True) e1"
proof -
  let ?pkt = "build_pubkey_auth_request u svc alg blob None"
  have "msg_type ?pkt = msg_u8 UserAuthRequest" and "AuthRequest_parse (payload ?pkt) =
      Ok \<lparr>username = u, service = svc, auth_method = ''publickey'', credential = PublicKey alg blob None\<rparr>"
    using assms parse_request_bytes [of u svc "PublicKey alg blob None" 0 "[]"]
    by (simp_all add: build_pubkey_auth_request_def wire_simps SshPacket_new_def enc_bool_flag)
  with assms(5,6) show ?thesis
    by (simp add: server_auth_step_def expect_packet_def credential_accepted_def bind_st_def return_st_def)
qed

text \<open>A command is run before its channel is looked up, also when there is no such channel.\<close>

lemma exec_without_channel:
  assumes "req_data msg = write_utf8 [] cmd" and "str_ok cmd" and "split_whitespace cmd = prog # args"
    and "command_output W (procs s) prog args = (res, p')"
    and "find_by_remote_id (chan_iter W) (chans s) (req_recipient_channel msg) = None"
  shows "server_exec W msg s = (Err (ChannelErr ''Unknown channel''), s\<lparr>procs := p'\<rparr>)"
  using assms
  by (cases res) (auto simp: server_exec_def execute_command_def lookup_channel_def wire_simps wire_reads bind_st_def
      return_st_def Let_def)

section \<open>Properties of the server\<close>

lemma login_credential:
  assumes "server_login X db a = Some (Ok (), e')"
  shows "\<exists>e0 e e1 pkt req. bind_st (server_handshake X) (\<lambda>_. server_service X) a = (Ok (), e0) \<and>
     iterates_to (server_auth_step X db) e0 e \<and> recv_packet X e = (Ok pkt, e1) \<and>
     msg_type pkt = msg_u8 UserAuthRequest \<and> AuthRequest_parse (payload pkt) = Ok req \<and> credential_accepted db req"
proof -
  from assms obtain e0 where e0: "bind_st (server_handshake X) (\<lambda>_. server_service X) a = (Ok (), e0)"
    and "loop_st (server_auth_step X db) e0 = Some (Ok (), e')"
    by (auto simp: server_login_def run_st_def elim!: then_run_OkE)
  from loop_st_last [OF this(2)] obtain e where e: "iterates_to (server_auth_step X db) e0 e"
    and "server_auth_step X db e = (Ok True, e')" by (auto simp: leaves_at_def)
  then obtain pkt e1 req where "recv_packet X e = (Ok pkt, e1)" "msg_type pkt = msg_u8 UserAuthRequest"
    "AuthRequest_parse (payload pkt) = Ok req" "credential_accepted db req"
    unfolding server_auth_step_def expect_packet_def
    by (auto elim!: bind_st_OkE simp: return_st_def fail_st_def lift_st_def split: if_splits)
  with e0 e show ?thesis by blast
qed

lemma authenticated_first:
  "case run_connection W db s of
     None \<Rightarrow> True
   | Some (r, s') \<Rightarrow>
       (chans s' = chans s \<and> sftp_state s' = sftp_state s \<and> procs s' = procs s) \<or>
       (\<exists>e0 e e1 pkt req. bind_st (server_handshake (net W)) (\<lambda>_. server_service (net W)) (conn s) = (Ok (), e0) \<and>
          iterates_to (server_auth_step (net W) db) e0 e \<and>
          recv_packet (net W) e = (Ok pkt, e1) \<and> msg_type pkt = msg_u8 UserAuthRequest \<and>
          AuthRequest_parse (payload pkt) = Ok req \<and> credential_accepted db req)"
proof (cases "run_connection W db s")
  case None
  then show ?thesis by simp
next
  case (Some x)
  then obtain r s' where x: "x = (r, s')" and run: "run_connection W db s = Some (r, s')" by (cases x) simp
  show ?thesis
  proof (cases "\<exists>e. server_login (net W) db (conn s) = Some (Ok (), e)")
    case False
    with run have "chans s' = chans s \<and> sftp_state s' = sftp_state s \<and> procs s' = procs s"
      by (auto simp: run_connection_def then_run_def run_on_conn_def split: option.splits outcome.splits)
    with Some x show ?thesis by simp
  next
    case True
    with login_credential Some x show ?thesis by fastforce
  qed
qed

text \<open>C4. Nothing happens before authentication: if a connection opened a channel, processed a file
  request or ran a program, then in this connection, after the completed handshake, a message of the
  authentication loop carried the password of a user of the database or a key authorized for one.\<close>

theorem nothing_before_authentication:
  "case handle_connection W db config r w g f p of
     None \<Rightarrow> True
   | Some (res, s') \<Rightarrow>
       (chans s' = ChannelManager_new \<and> sftp_state s' = (SftpHandler_new (sftp_root config), f) \<and> procs s' = p) \<or>
       (\<exists>e0 e e1 pkt req.
          bind_st (server_handshake (net W)) (\<lambda>_. server_service (net W))
            \<lparr>rdr = r, wtr = w, sess = SessionKeys_new, rng = g\<rparr> = (Ok (), e0) \<and>
          iterates_to (server_auth_step (net W) db) e0 e \<and>
          recv_packet (net W) e = (Ok pkt, e1) \<and> msg_type pkt = msg_u8 UserAuthRequest \<and>
          AuthRequest_parse (payload pkt) = Ok req \<and> credential_accepted db req)"
  using authenticated_first [where s = "server_start config r w g f p" and W = W and db = db]
  by (simp add: handle_connection_def server_start_def split: option.splits prod.splits)



text \<open>A whole connection leaves the file system outside the root directory alone, whatever the peer
  sends and for however long: what can be observed at a path that does not lie below the root is the
  same when the connection has ended, on a file system whose operations change nothing but their path
  and what lies below it. (What the programs do that a user runs is a separate part of the state.)\<close>

theorem connection_confined:
  assumes "stable_root (files W) (sftp_root config) root" and "confined_fs (files W) view hp"
    and "\<not> path_starts_with q root" and "handle_connection W db config r w g f p = Some (res, s')"
  shows "view (snd (sftp_state s')) q = view f q"
proof -
  let ?root = "sftp_root config"
  have "(file_step W)\<^sup>*\<^sup>* (SftpHandler_new ?root, f) (sftp_state s')"
    using server_loop_evolves [where part = sftp_state, OF server_message_files _ assms(4) [unfolded handle_connection_def]]
    by (simp add: server_start_def)
  from file_steps_confined [OF this assms(1-3)] show ?thesis by (simp add: handler_ok_new)
qed

theorem connection_confined_witness:
  "\<exists>res s'. handle_connection demo_world server_users \<lparr>bind_addr = ''::'', port = 22, sftp_root = ''/srv''\<rparr>
     [1, 2, 3] [] () [''/etc/passwd'' \<mapsto> [42]] [] = Some (res, s') \<and> snd (sftp_state s') ''/etc/passwd'' = Some [42]"
proof -
  let ?config = "\<lparr>bind_addr = ''::'', port = 22, sftp_root = ''/srv''\<rparr>"
  have fs: "stable_root (files demo_world) (sftp_root ?config) ''/srv''" "confined_fs (files demo_world) (\<lambda>f. f) fst"
    using demo_stable_root demo_confined_fs by (simp_all add: demo_world_def)
  have q: "\<not> path_starts_with ''/etc/passwd'' ''/srv''" by code_simp
  obtain res s' where run: "handle_connection demo_world server_users ?config [1, 2, 3] [] () [''/etc/passwd'' \<mapsto> [42]] [] = Some (res, s')"
    using connection_returns [OF demo_reader] by blast
  with connection_confined [OF fs q run] show ?thesis by auto
qed

text \<open>C14. In a build with overflow checks the channel table a connection ends with, after whatever
  messages, is one that the operations of the channel manager reach, so that it satisfies their
  invariant: a finite table in which every channel is stored under its own identifier, below the
  counter.\<close>

theorem connection_channels:
  assumes "overflow_checks W" and "handle_connection W db config r w g f p = Some (res, s')"
  shows "mgr_reachable (chan_iter W) True (chans s') \<and> mgr_ok (chans s')"
proof -
  have "(mgr_step (chan_iter W) True)\<^sup>*\<^sup>* ChannelManager_new (chans s')"
    using server_loop_evolves [where part = chans, OF server_message_channels [OF assms(1)] _ assms(2) [unfolded handle_connection_def]]
    by (simp add: server_start_def)
  then have "mgr_reachable (chan_iter W) True (chans s')"
    by induction (auto intro: mgr_reachable.intros)
  then show ?thesis using mgr_reachable_ok by blast
qed

theorem connection_channels_witness:
  "\<exists>res s'. handle_connection demo_world server_users ServerConfig_default [1, 2, 3] [] () Map.empty [] = Some (res, s') \<and>
     mgr_ok (chans s')"
proof -
  obtain res s' where run: "handle_connection demo_world server_users ServerConfig_default [1, 2, 3] [] () Map.empty [] = Some (res, s')"
    using connection_returns [OF demo_reader] by blast
  with connection_channels [OF _ run] show ?thesis by (auto simp: demo_world_def)
qed

end
