(* ===== verification/Client.thy ===== *)
theory Client
  imports Peer Auth
begin

text \<open>
  The client of \<open>src/bin/client.rs\<close>: the phases of \<open>run_client\<close> behind the handshake (service
  request, password authentication, the session channel, running a command, disconnecting).

  The state is that of a peer with what the program has printed. In the interactive mode the
  program waits for the server and for the user at once (\<open>select!\<close>); which of them comes first is
  a schedule, an argument of the model. Logging is left out, and printing is assumed to succeed.

  Shown here: on a finite input a client that runs a command ends; it opens its channel and prints
  only after the server accepted the password; and what typing does to a packet that is being
  received.
\<close>

section \<open>Arguments and state\<close>

record Args =
  host :: string
  arg_port :: u16
  user :: string
  password :: "string option"
  command :: "string option"
  interactive :: bool

record ('c, 'r, 'w, 'g) client_state = "('c, 'r, 'w, 'g) peer" +
  stdout :: string
  stderr :: string

section \<open>Logging in\<close>

definition client_service :: "('c, 'r, 'w, 'g) ext_ops \<Rightarrow> (('c, 'r, 'w, 'g) endpoint, unit) stateful" where
  "client_service X =
     bind_st (send_packet X (build_service_request ''ssh-userauth'')) (\<lambda>_.
     bind_st (expect_packet X ServiceAccept (Protocol ''Expected SERVICE_ACCEPT'')) (\<lambda>_.
       return_st ()))"

definition client_auth ::
  "('c, 'r, 'w, 'g) ext_ops \<Rightarrow> string \<Rightarrow> string option \<Rightarrow> (('c, 'r, 'w, 'g) endpoint, unit) stateful" where
  "client_auth X usr pw =
     bind_st (send_packet X (build_password_auth_request usr ''ssh-connection''
       (case pw of Some p \<Rightarrow> p | None \<Rightarrow> []))) (\<lambda>_.
     bind_st (recv_packet X) (\<lambda>auth_response.
       if msg_type auth_response = msg_u8 UserAuthSuccess then return_st ()
       else if msg_type auth_response = msg_u8 UserAuthFailure
       then fail_st (AuthFailed ''Authentication rejected by server'')
       else fail_st (Protocol ''Unexpected auth response'')))"

section \<open>The session channel\<close>

text \<open>Opening the channel returns the identifier and the entry of the table the message is built from;
  \<open>unwrap\<close> panics when there is none.\<close>

definition client_new_channel ::
  "bool \<Rightarrow> (('c, 'r, 'w, 'g, 'z) peer_scheme, u32 \<times> Channel) stateful" where
  "client_new_channel chk s =
     (let (r, m) = open_channel chk ''session'' (chans s)
      in bind_st (lift_st r) (\<lambda>ch_id.
           case get_channel m ch_id of
             Some ch \<Rightarrow> return_st (ch_id, ch)
           | None \<Rightarrow> lift_st Panic) (s\<lparr>chans := m\<rparr>))"

definition client_confirm ::
  "u32 \<Rightarrow> bytes \<Rightarrow> (('c, 'r, 'w, 'g, 'z) peer_scheme, u32) stateful" where
  "client_confirm ch_id p =
     bind_st (lift_st (read_u32 (cursor_new p))) (\<lambda>(recipient, c).
     bind_st (lift_st (read_u32 c)) (\<lambda>(rid, c).
     bind_st (lift_st (read_u32 c)) (\<lambda>(rwindow, c).
     bind_st (lift_st (read_u32 c)) (\<lambda>(rmax_packet, c) s.
       let (r, m) = confirm_channel ch_id rid rwindow rmax_packet (chans s)
       in bind_st (lift_st r) (\<lambda>_. return_st rid) (s\<lparr>chans := m\<rparr>)))))"

definition client_open_channel ::
  "('c, 'r, 'w, 'g) ext_ops \<Rightarrow> bool \<Rightarrow> (('c, 'r, 'w, 'g, 'z) peer_scheme, u32) stateful" where
  "client_open_channel X chk =
     bind_st (client_new_channel chk) (\<lambda>(ch_id, ch).
     bind_st (peer_send X (build_channel_open ''session'' (local_id ch) (local_window ch) (local_max_packet ch))) (\<lambda>_.
     bind_st (on_conn (expect_packet X ChannelOpenConfirmation (ChannelErr ''Channel open failed''))) (\<lambda>confirm_pkt.
       client_confirm ch_id (payload confirm_pkt))))"

section \<open>Running a command\<close>

definition print_out :: "bytes \<Rightarrow> (('c, 'r, 'w, 'g) client_state, unit) stateful" where
  "print_out d s = (Ok (), s\<lparr>stdout := stdout s @ from_utf8_lossy d\<rparr>)"

definition print_err :: "bytes \<Rightarrow> (('c, 'r, 'w, 'g) client_state, unit) stateful" where
  "print_err d s = (Ok (), s\<lparr>stderr := stderr s @ from_utf8_lossy d\<rparr>)"

text \<open>One message of the loop that waits for the end of the command; the result says whether the
  loop ends.\<close>

definition client_exec_message ::
  "('c, 'r, 'w, 'g) ext_ops \<Rightarrow> u32 \<Rightarrow> SshPacket \<Rightarrow> (('c, 'r, 'w, 'g) client_state, bool) stateful" where
  "client_exec_message X rid pkt =
     (case from_u8 (msg_type pkt) of
        Some ChannelData \<Rightarrow>
          bind_st (lift_st (ChannelDataMsg_parse (payload pkt))) (\<lambda>msg.
          bind_st (print_out (data_data msg)) (\<lambda>_. return_st False))
      | Some ChannelExtendedData \<Rightarrow>
          bind_st (lift_st (read_u32 (cursor_new (payload pkt)))) (\<lambda>(channel, c).
          bind_st (lift_st (read_u32 c)) (\<lambda>(data_type, c).
          bind_st (lift_st (read_string c)) (\<lambda>(d, c).
          bind_st (print_err d) (\<lambda>_. return_st False))))
      | Some ChannelClose \<Rightarrow>
          bind_st (peer_send X (build_channel_close rid)) (\<lambda>_. return_st True)
      | _ \<Rightarrow> return_st False)"

definition client_exec ::
  "('c, 'r, 'w, 'g) ext_ops \<Rightarrow> u32 \<Rightarrow> string \<Rightarrow> (('c, 'r, 'w, 'g) client_state, unit) running" where
  "client_exec X rid cmd =
     then_run (run_st (peer_send X (build_exec_request rid cmd True))) (\<lambda>_.
       loop_st (peer_step X (client_exec_message X rid)))"

section \<open>The interactive mode\<close>

definition client_shell_message ::
  "('c, 'r, 'w, 'g) ext_ops \<Rightarrow> u32 \<Rightarrow> SshPacket \<Rightarrow> (('c, 'r, 'w, 'g) client_state, bool) stateful" where
  "client_shell_message X rid pkt =
     (case from_u8 (msg_type pkt) of
        Some ChannelData \<Rightarrow>
          bind_st (lift_st (ChannelDataMsg_parse (payload pkt))) (\<lambda>msg.
          bind_st (print_out (data_data msg)) (\<lambda>_. return_st False))
      | Some ChannelClose \<Rightarrow>
          bind_st (peer_send X (build_channel_close rid)) (\<lambda>_. return_st True)
      | _ \<Rightarrow> return_st False)"

text \<open>A branch of \<open>select!\<close> that is not taken is dropped: when the user has typed a line, a pending
  \<open>recv_packet\<close> is cancelled at the point where it waits for input. \<open>recv_cancelled X skip n\<close> is
  the endpoint at that point when \<open>n\<close> bytes have arrived since the call: bytes of the first block
  are taken off the stream; once the first block is complete it is decrypted, once the whole packet
  has arrived the rest is decrypted and the packet counted. \<open>skip\<close> takes a number of bytes off the
  stream. A packet whose length field is refused makes \<open>recv_packet\<close> return its error at once, which
  is the event \<open>FromServer\<close>: the call never waits behind such a first block.\<close>

definition recv_cancelled ::
  "('c, 'r, 'w, 'g) ext_ops \<Rightarrow> ('r \<Rightarrow> nat \<Rightarrow> 'r) \<Rightarrow> nat \<Rightarrow> ('c, 'r, 'w, 'g) endpoint \<Rightarrow> ('c, 'r, 'w, 'g) endpoint" where
  "recv_cancelled X skip n s0 =
     (let blk = block_size (sess s0) in
      if n < blk then s0\<lparr>rdr := skip (rdr s0) n\<rparr>
      else (case read_bytes_or_closed X blk s0 of
         (Ok first_block, s) \<Rightarrow>
           (let (first_block, keys) = decrypt_data X first_block (sess s);
                s = s\<lparr>sess := keys\<rparr>;
                packet_length = unat (from_be_bytes_u32 (take 4 first_block))
            in if n < 4 + packet_length then s\<lparr>rdr := skip (rdr s) (n - blk)\<rparr>
               else (case recv_rest X (4 + packet_length) blk s of
                  (Ok rest, s) \<Rightarrow>
                    (let (seq, keys) = next_recv_seq (sess s)
                     in s\<lparr>sess := keys, rdr := skip (rdr s) (n - (4 + packet_length))\<rparr>)
                | (_, s) \<Rightarrow> s))
       | (_, s) \<Rightarrow> s))"

datatype shell_event = FromServer | Typed string nat

fun shell_step ::
  "('c, 'r, 'w, 'g) ext_ops \<Rightarrow> ('r \<Rightarrow> nat \<Rightarrow> 'r) \<Rightarrow> u32 \<Rightarrow> shell_event \<Rightarrow> (('c, 'r, 'w, 'g) client_state, bool) stateful" where
  "shell_step X skip rid FromServer = peer_step X (client_shell_message X rid)"
| "shell_step X skip rid (Typed line n) = (\<lambda>s.
     bind_st (peer_send X (build_channel_data rid (as_bytes line))) (\<lambda>_. return_st False)
       (s\<lparr>conn := recv_cancelled X skip n (conn s)\<rparr>))"

text \<open>The loop over a schedule. Behind the end of the schedule nothing happens any more, and the
  program waits.\<close>

fun shell_loop ::
  "('c, 'r, 'w, 'g) ext_ops \<Rightarrow> ('r \<Rightarrow> nat \<Rightarrow> 'r) \<Rightarrow> u32 \<Rightarrow> shell_event list \<Rightarrow> (('c, 'r, 'w, 'g) client_state, unit) running" where
  "shell_loop X skip rid [] s = None"
| "shell_loop X skip rid (ev # evs) s =
     then_run (run_st (shell_step X skip rid ev)) (\<lambda>stop.
       if stop then run_st (return_st ()) else shell_loop X skip rid evs) s"

definition client_shell ::
  "('c, 'r, 'w, 'g) ext_ops \<Rightarrow> ('r \<Rightarrow> nat \<Rightarrow> 'r) \<Rightarrow> shell_event list \<Rightarrow> u32 \<Rightarrow> (('c, 'r, 'w, 'g) client_state, unit) running" where
  "client_shell X skip schedule rid =
     then_run (run_st (peer_send X (build_shell_request rid True))) (\<lambda>_. shell_loop X skip rid schedule)"

section \<open>The end of a session\<close>

definition disconnect_packet :: SshPacket where
  "disconnect_packet =
     (let buf = write_u32 [] 11;
          buf = write_utf8 buf ''Session ended'';
          buf = write_utf8 buf ''en''
      in SshPacket_new Disconnect buf)"

section \<open>The client\<close>

definition client_session ::
  "('c, 'r, 'w, 'g) ext_ops \<Rightarrow> bool \<Rightarrow> Args \<Rightarrow> (('c, 'r, 'w, 'g) client_state, u32) stateful" where
  "client_session X chk args =
     bind_st (on_conn (client_handshake X)) (\<lambda>_.
     bind_st (on_conn (client_service X)) (\<lambda>_.
     bind_st (on_conn (client_auth X (user args) (password args))) (\<lambda>_.
       client_open_channel X chk)))"

definition client_start :: "'r \<Rightarrow> 'w \<Rightarrow> 'g \<Rightarrow> ('c, 'r, 'w, 'g) client_state" where
  "client_start r w g =
     \<lparr>conn = \<lparr>rdr = r, wtr = w, sess = SessionKeys_new, rng = g\<rparr>, chans = ChannelManager_new, stdout = [], stderr = []\<rparr>"

definition run_client ::
  "('c, 'r, 'w, 'g) ext_ops \<Rightarrow> bool \<Rightarrow> ('r \<Rightarrow> nat \<Rightarrow> 'r) \<Rightarrow> shell_event list \<Rightarrow> Args \<Rightarrow>
   'r \<Rightarrow> 'w \<Rightarrow> 'g \<Rightarrow> (unit outcome \<times> ('c, 'r, 'w, 'g) client_state) option" where
  "run_client X chk skip schedule args r w g =
     then_run (run_st (client_session X chk args)) (\<lambda>rid.
     then_run (case command args of
                 Some cmd \<Rightarrow> client_exec X rid cmd
               | None \<Rightarrow> if interactive args then client_shell X skip schedule rid else run_st (return_st ())) (\<lambda>_.
       run_st (peer_send X disconnect_packet))) (client_start r w g)"

section \<open>A client that runs a command ends\<close>

lemma client_exec_keeps: "keeps (\<lambda>s. rdr (conn s)) (client_exec_message X rid pkt)"
proof -
  have print: "keeps (\<lambda>s. rdr (conn s)) (print_out d)" "keeps (\<lambda>s. rdr (conn s)) (print_err d)" for d
    by (simp_all add: keeps_def print_out_def print_err_def)
  show ?thesis unfolding client_exec_message_def
    by (auto intro!: keeps_rules print split: option.splits MessageType.splits)
qed

lemma client_exec_returns:
  assumes "reader_law X avail"
  shows "\<exists>r s'. client_exec X rid cmd s = Some (r, s')"
  unfolding client_exec_def using assms client_exec_keeps
  by (intro then_run_returns run_st_returns peer_loop.returns) blast

section \<open>Properties of the client\<close>

text \<open>C12. A client that is not interactive ends: on a stream that delivers finitely many bytes, whatever
  they are, \<open>run_client\<close> returns.\<close>

theorem client_ends:
  assumes "reader_law X avail" and "command args \<noteq> None \<or> \<not> interactive args"
  shows "\<exists>res c. run_client X chk skip schedule args r w g = Some (res, c)"
proof -
  have "\<exists>res c'. (case command args of Some cmd \<Rightarrow> client_exec X rid cmd
      | None \<Rightarrow> if interactive args then client_shell X skip schedule rid else run_st (return_st ())) c = Some (res, c')"
    for rid and c :: "('a, 'b, 'c, 'd) client_state"
    using assms client_exec_returns [OF assms(1)] run_st_returns [of "return_st ()"] by (cases "command args") auto
  then show ?thesis unfolding run_client_def by (intro then_run_returns run_st_returns)
qed

theorem client_ends_witness:
  "\<exists>res c. run_client demo_ext True (\<lambda>r n. drop n r) [] \<lparr>host = ''127.0.0.1'', arg_port = 2222, user = ''user'',
     password = None, command = Some ''date'', interactive = True\<rparr> [1, 2, 3] [] () = Some (res, c)"
  by (rule client_ends [where avail = "\<lambda>r. r"]) (use demo_link_laws in \<open>simp_all add: link_laws_def\<close>)

text \<open>C11. Nothing before login: a client opens its channel and prints something only after the server
  has answered its password with success. Whatever the server sends otherwise, the channel table and
  the output are empty when the client returns.\<close>

theorem client_waits_for_login:
  "case run_client X chk skip schedule args r w g of
     None \<Rightarrow> True
   | Some (res, c) \<Rightarrow>
       (chans c = ChannelManager_new \<and> stdout c = [] \<and> stderr c = [] \<and> res \<noteq> Ok ()) \<or>
       (\<exists>e0 e1 e2 pkt.
          bind_st (client_handshake X) (\<lambda>_. client_service X) \<lparr>rdr = r, wtr = w, sess = SessionKeys_new, rng = g\<rparr> = (Ok (), e0) \<and>
          send_packet X (build_password_auth_request (user args) ''ssh-connection''
            (case password args of Some p \<Rightarrow> p | None \<Rightarrow> [])) e0 = (Ok (), e1) \<and>
          recv_packet X e1 = (Ok pkt, e2) \<and> msg_type pkt = msg_u8 UserAuthSuccess)"
proof -
  let ?e = "\<lparr>rdr = r, wtr = w, sess = SessionKeys_new, rng = g\<rparr>"
  let ?login = "bind_st (client_handshake X) (\<lambda>_. bind_st (client_service X) (\<lambda>_. client_auth X (user args) (password args)))"
  have session: "client_session X chk args = bind_st (on_conn ?login) (\<lambda>_. client_open_channel X chk)"
    unfolding client_session_def
    by (rule ext) (simp add: on_conn_def bind_st_def split: prod.splits outcome.splits)
  obtain res1 e where login: "?login ?e = (res1, e)" by (cases "?login ?e")
  show ?thesis
  proof (cases "res1 = Ok ()")
    case True
    with login have "\<exists>e0 e1 e2 pkt.
          bind_st (client_handshake X) (\<lambda>_. client_service X) ?e = (Ok (), e0) \<and>
          send_packet X (build_password_auth_request (user args) ''ssh-connection''
            (case password args of Some p \<Rightarrow> p | None \<Rightarrow> [])) e0 = (Ok (), e1) \<and>
          recv_packet X e1 = (Ok pkt, e2) \<and> msg_type pkt = msg_u8 UserAuthSuccess"
      by (auto simp: client_auth_def return_st_def fail_st_def bind_st_Ok elim!: bind_st_OkE split: if_splits)
    then show ?thesis by (auto split: option.splits)
  next
    case False
    then show ?thesis
      using login unfolding run_client_def session
      by (cases res1) (auto simp: then_run_def run_st_def bind_st_def on_conn_def client_start_def)
  qed
qed



end
