(* ===== verification/Dialogue.thy ===== *)
theory Dialogue
  imports Peer
begin

text \<open>
  Two programs connected to each other. \<open>plays P f x Q rd wr\<close> says that the code \<open>f\<close>, started
  in a state that satisfies \<open>P\<close> with \<open>rd\<close> next on its input, returns \<open>x\<close> in a state that
  satisfies \<open>Q\<close>, having read exactly \<open>rd\<close> and written exactly \<open>wr\<close>. A \<open>dialogue\<close> is two such
  plays in which each side reads what the other writes; dialogues compose in sequence, so a
  conversation of two programs is verified message by message.

  The state of an endpoint is described by the two halves of its session: a packet is written
  with the sending half of one side and read with the equal receiving half of the other.
\<close>

section \<open>One side\<close>

type_synonym 's assertion = "bytes \<Rightarrow> bytes \<Rightarrow> 's \<Rightarrow> bool"

definition plays :: "'s assertion \<Rightarrow> ('s, 'x) running \<Rightarrow> 'x \<Rightarrow> 's assertion \<Rightarrow> bytes \<Rightarrow> bytes \<Rightarrow> bool" where
  "plays P f x Q rd wr \<longleftrightarrow>
     (\<forall>i out s. P (rd @ i) out s \<longrightarrow> (\<exists>s'. f s = Some (Ok x, s') \<and> Q i (out @ wr) s'))"

lemma playsD:
  "plays P (run_st m) x Q rd wr \<Longrightarrow> P (rd @ i) out s \<Longrightarrow> \<exists>s'. m s = (Ok x, s') \<and> Q i (out @ wr) s'"
  unfolding plays_def run_st_def by blast

lemma plays_then:
  assumes "plays P f x Q rd wr" and "plays Q (g x) y R rd' wr'"
  shows "plays P (then_run f g) y R (rd @ rd') (wr @ wr')"
  unfolding plays_def
proof (intro allI impI)
  fix i out s
  assume "P ((rd @ rd') @ i) out s"
  then obtain s1 where s1: "f s = Some (Ok x, s1)" "Q (rd' @ i) (out @ wr) s1"
    using assms(1) unfolding plays_def by (metis append.assoc)
  then obtain s' where "g x s1 = Some (Ok y, s')" "R i ((out @ wr) @ wr') s'"
    using assms(2) unfolding plays_def by blast
  with s1 show "\<exists>s'. then_run f g s = Some (Ok y, s') \<and> R i (out @ wr @ wr') s'"
    by (simp add: then_run_def)
qed

lemma run_st_bind: "run_st (bind_st m f) = then_run (run_st m) (\<lambda>x. run_st (f x))"
  by (rule ext) (simp add: run_st_def then_run_def bind_st_def split: prod.splits outcome.splits)

lemmas plays_bind = plays_then [where f = "run_st m" and g = "\<lambda>x. run_st (h x)" for m h, folded run_st_bind]

lemma plays_return: "plays P (run_st (return_st x)) x P [] []"
  by (simp add: plays_def run_st_def return_st_def)

lemma plays_lift: "r = Ok x \<Longrightarrow> plays P (run_st (lift_st r)) x P [] []"
  by (simp add: plays_return)

text \<open>A weaker program: it returns what the stronger one returns, whenever that succeeds.\<close>

definition covers :: "('s, 'x) running \<Rightarrow> ('s, 'x) running \<Rightarrow> bool" where
  "covers f' f \<longleftrightarrow> (\<forall>s x s'. f s = Some (Ok x, s') \<longrightarrow> f' s = Some (Ok x, s'))"

lemma plays_covered: "covers f' f \<Longrightarrow> plays P f x Q rd wr \<Longrightarrow> plays P f' x Q rd wr"
  unfolding plays_def covers_def by meson

section \<open>Two sides\<close>

text \<open>The left side may have written more than the right side reads. In a \<open>monologue\<close> of the right
  side it reads nothing at all.\<close>

definition dialogue ::
  "'s assertion \<Rightarrow> ('s, 'x) running \<Rightarrow> 'x \<Rightarrow> 's assertion \<Rightarrow> 't assertion \<Rightarrow> ('t, 'y) running \<Rightarrow> 'y \<Rightarrow> 't assertion \<Rightarrow> bool" where
  "dialogue P f x P' Q g y Q' \<longleftrightarrow>
     (\<exists>ws unread wc. plays P f x P' wc (ws @ unread) \<and> plays Q g y Q' ws wc)"

definition monologue ::
  "'s assertion \<Rightarrow> ('s, 'x) running \<Rightarrow> 'x \<Rightarrow> 's assertion \<Rightarrow> 't assertion \<Rightarrow> ('t, 'y) running \<Rightarrow> 'y \<Rightarrow> 't assertion \<Rightarrow> bool" where
  "monologue P f x P' Q g y Q' \<longleftrightarrow> (\<exists>unread wc. plays P f x P' wc unread \<and> plays Q g y Q' [] wc)"

lemma monologue_dialogue: "monologue P f x P' Q g y Q' \<Longrightarrow> dialogue P f x P' Q g y Q'"
  unfolding monologue_def dialogue_def by (metis append_Nil)

lemma dialogue_then:
  assumes "plays P f x P1 wc ws" and "plays Q g y Q1 ws wc" and "dialogue P1 (f' x) x' P2 Q1 (g' y) y' Q2"
  shows "dialogue P (then_run f f') x' P2 Q (then_run g g') y' Q2"
proof -
  obtain ws' unread wc' where r: "plays P1 (f' x) x' P2 wc' (ws' @ unread)" "plays Q1 (g' y) y' Q2 ws' wc'"
    using assms(3) unfolding dialogue_def by blast
  have "plays P (then_run f f') x' P2 (wc @ wc') ((ws @ ws') @ unread)"
    using plays_then [of P f x P1 wc ws f' x' P2, OF assms(1) r(1)] by simp
  moreover have "plays Q (then_run g g') y' Q2 (ws @ ws') (wc @ wc')"
    using plays_then [of Q g y Q1 ws wc g' y' Q2, OF assms(2) r(2)] .
  ultimately show ?thesis unfolding dialogue_def by blast
qed

lemma dialogue_left:
  assumes "plays P f x P1 [] []" and "dialogue P1 (f' x) x' P2 Q g y Q2"
  shows "dialogue P (then_run f f') x' P2 Q g y Q2"
  using assms plays_then [OF assms(1)] unfolding dialogue_def by fastforce

lemma dialogue_right:
  assumes "plays Q g y Q1 [] []" and "dialogue P f x P2 Q1 (g' y) y' Q2"
  shows "dialogue P f x P2 Q (then_run g g') y' Q2"
  using assms plays_then [OF assms(1)] unfolding dialogue_def by fastforce

lemma dialogue_covered:
  "dialogue P f x P' Q g y Q' \<Longrightarrow> covers f' f \<Longrightarrow> dialogue P f' x P' Q g y Q'"
  "dialogue P f x P' Q g y Q' \<Longrightarrow> covers g' g \<Longrightarrow> dialogue P f x P' Q g' y Q'"
  unfolding dialogue_def by (meson plays_covered)+

lemma monologue_then:
  assumes "plays P f x P1 wc ws" and "plays Q g y Q1 [] wc" and "monologue P1 (f' x) x' P2 Q1 (g' y) y' Q2"
  shows "monologue P (then_run f f') x' P2 Q (then_run g g') y' Q2"
  using assms plays_then [OF assms(1)] plays_then [OF assms(2)] unfolding monologue_def by fastforce

lemma monologue_left:
  assumes "plays P f x P1 [] ws" and "monologue P1 (f' x) x' P2 Q g y Q2"
  shows "monologue P (then_run f f') x' P2 Q g y Q2"
  using assms plays_then [OF assms(1)] unfolding monologue_def by fastforce

lemma monologue_right:
  assumes "plays Q g y Q1 [] []" and "monologue P f x P2 Q1 (g' y) y' Q2"
  shows "monologue P f x P2 Q (then_run g g') y' Q2"
  using assms plays_then [OF assms(1)] unfolding monologue_def by fastforce

lemma monologue_end: "monologue P (run_st (return_st x)) x P Q (run_st (return_st y)) y Q"
  using plays_return unfolding monologue_def by metis

lemma monologue_covered:
  "monologue P f x P' Q g y Q' \<Longrightarrow> covers f' f \<Longrightarrow> monologue P f' x P' Q g y Q'"
  unfolding monologue_def by (meson plays_covered)

section \<open>Programs in sequential form\<close>

lemma then_run_assoc: "then_run (then_run f g) h = then_run f (\<lambda>x. then_run (g x) h)"
  by (rule ext) (simp add: then_run_def split: option.splits outcome.splits)

lemma then_run_return [simp]: "then_run (run_st (return_st x)) f = f x"
  by (rule ext) (simp add: then_run_def run_st_def return_st_def)

lemma then_run_end: "then_run f (\<lambda>x. run_st (return_st x)) = f"
  by (rule ext) (simp add: then_run_def run_st_def return_st_def split: option.splits outcome.splits)

lemma loop_st_unfold:
  "loop_st body = then_run (run_st body) (\<lambda>stop. if stop then run_st (return_st ()) else loop_st body)"
  by (rule ext, subst loop_st.simps) (simp add: then_run_def run_st_def return_st_def split: prod.splits outcome.splits)

lemma on_conn_seq:
  "on_conn (return_st x) = return_st x" "on_conn (lift_st r) = lift_st r" "on_conn (fail_st e) = fail_st e"
  "on_conn (bind_st m f) = bind_st (on_conn m) (\<lambda>x. on_conn (f x))"
  "on_conn (if b then m else n) = (if b then on_conn m else on_conn n)"
  by (rule ext; simp add: on_conn_def return_st_def lift_st_def fail_st_def bind_st_def split: prod.splits outcome.splits)+

lemma run_on_conn_seq:
  "run_on_conn (run_st m) = run_st (on_conn m)"
  "run_on_conn (then_run m' f) = then_run (run_on_conn m') (\<lambda>x. run_on_conn (f x))"
  "run_on_conn (if b then k else l) = (if b then run_on_conn k else run_on_conn l)"
  by (rule ext; simp add: run_on_conn_def run_st_def then_run_def on_conn_def split_beta split: option.splits outcome.splits)+

lemmas sequential = run_st_bind then_run_assoc on_conn_seq run_on_conn_seq

text \<open>A step of a peer's loop, once the packet is received.\<close>

lemma peer_step_covers:
  "covers (then_run (run_st (peer_step X handler)) f)
     (then_run (run_st (on_conn (recv_packet X))) (\<lambda>p. then_run (run_st (handler p)) f))"
  by (auto simp: covers_def then_run_def run_st_def peer_step_def split: prod.splits outcome.splits)

section \<open>Endpoints\<close>

type_synonym 'c half = "u32 \<times> bytes option \<times> 'c option"

definition at_halves ::
  "('r \<Rightarrow> bytes) \<Rightarrow> ('w \<Rightarrow> bytes) \<Rightarrow> 'c half \<Rightarrow> 'c half \<Rightarrow> 'g \<Rightarrow> ('c, 'r, 'w, 'g) endpoint assertion" where
  "at_halves avail sent sh rh g i out e \<longleftrightarrow>
     avail (rdr e) = i \<and> sent (wtr e) = out \<and> send_half (sess e) = sh \<and> recv_half (sess e) = rh \<and> rng e = g"

text \<open>Some session with a given sending half; what is sent depends on nothing else of the session.\<close>

definition sender_of :: "'c half \<Rightarrow> 'c SessionKeys" where
  "sender_of h =
     (case h of (q, mac, c) \<Rightarrow>
        SessionKeys_new\<lparr>send_seq := q, send_mac_key := mac,
          ciphers := map_option (\<lambda>c. \<lparr>encrypt = \<lparr>cipher = c\<rparr>, decrypt = \<lparr>cipher = c\<rparr>\<rparr>) c\<rparr>)"

lemma send_half_sender_of [simp]: "send_half (sender_of h) = h"
  by (cases h) (simp add: sender_of_def send_half_def option.map_comp comp_def option.map_ident)

lemma sending_depends_on_half:
  assumes "send_half k = send_half k'"
  shows "block_size k = block_size k'" and "wire_of X k d = wire_of X k' d"
    and "send_half (sent_keys X k d) = send_half (sent_keys X k' d)"
proof -
  have eq: "send_seq k = send_seq k'" "send_mac_key k = send_mac_key k'"
    "map_option (\<lambda>cp. cipher (encrypt cp)) (ciphers k) = map_option (\<lambda>cp. cipher (encrypt cp)) (ciphers k')"
    using assms by (simp_all add: send_half_def)
  show "block_size k = block_size k'" using is_encrypted_halves(1) [of k] is_encrypted_halves(1) [of k'] assms
    by (simp add: block_size_def)
  show "wire_of X k d = wire_of X k' d"
    using eq by (cases "ciphers k"; cases "ciphers k'")
      (simp_all add: wire_of_def mac_of_def encrypt_data_def AesCipher_apply_simps split_beta split: option.splits)
  show "send_half (sent_keys X k d) = send_half (sent_keys X k' d)"
    using eq by (cases "ciphers k"; cases "ciphers k'") (simp_all add: sent_keys_halves)
qed

lemma packet_exchange:
  fixes X :: "('c, 'r, 'w, 'g) ext_ops"
  assumes laws: "link_laws X avail sent" and small: "length (payload p) \<le> 34970"
  shows "\<exists>h' g' w. (\<forall>rh. plays (at_halves avail sent h rh g) (run_st (send_packet X p)) ()
                              (at_halves avail sent h' rh g') [] w) \<and>
                   (\<forall>sh g1. plays (at_halves avail sent sh h g1) (run_st (recv_packet X)) p
                              (at_halves avail sent sh h' g1) w [])"
proof -
  have l: "stream_cipher X" "mac_verifies X" "reader_law X avail" "writer_law X sent" "fills (fill_bytes X)"
    using laws by (simp_all add: link_laws_def)
  let ?k = "sender_of h"
  have "block_size ?k \<le> 16" by (simp add: block_size_def AES_BLOCK_SIZE_def)
  obtain d g' where ser: "serialize (fill_bytes X) p (block_size ?k) g = (Ok d, g')"
    using serialize_small [OF small \<open>block_size ?k \<le> 16\<close>, of "fill_bytes X" g] by auto
  let ?h' = "send_half (sent_keys X ?k d)" and ?w = "wire_of X ?k d"
  have "plays (at_halves avail sent h rh g) (run_st (send_packet X p)) () (at_halves avail sent ?h' rh g') [] ?w" for rh
    unfolding plays_def at_halves_def run_st_def
  proof (intro allI impI)
    fix i out and s :: "('c, 'r, 'w, 'g) endpoint"
    assume s: "avail (rdr s) = [] @ i \<and> sent (wtr s) = out \<and> send_half (sess s) = h \<and> recv_half (sess s) = rh \<and> rng s = g"
    note dep = sending_depends_on_half [of "sess s" ?k]
    from s ser dep(1) send_packet_cases [OF l(4), of p s]
    obtain w where w: "send_packet X p s = (Ok (), s\<lparr>rng := g', sess := sent_keys X (sess s) d, wtr := w\<rparr>)"
      "sent w = out @ wire_of X (sess s) d" by auto
    with s dep(2,3) [where X = X and d = d]
    show "\<exists>s'. Some (send_packet X p s) = Some (Ok (), s') \<and> avail (rdr s') = i \<and> sent (wtr s') = out @ ?w \<and>
      send_half (sess s') = ?h' \<and> recv_half (sess s') = rh \<and> rng s' = g'"
      by (simp add: sent_keys_halves(2))
  qed
  moreover have "plays (at_halves avail sent sh h g1) (run_st (recv_packet X)) p (at_halves avail sent sh ?h' g1) ?w []" for sh g1
    using recv_packet_of_wire [OF l(1,2,3,5) _ ser]
    by (fastforce simp: plays_def at_halves_def run_st_def fits_def)
  ultimately show ?thesis by blast
qed

section \<open>Peers\<close>

text \<open>A peer whose endpoint has the halves \<open>a\<close> and \<open>b\<close>, with a view of the rest of its state.\<close>

definition at_peer ::
  "('r \<Rightarrow> bytes) \<Rightarrow> ('w \<Rightarrow> bytes) \<Rightarrow> 'c half \<Rightarrow> 'c half \<Rightarrow> 'g \<Rightarrow> (('c, 'r, 'w, 'g, 'z) peer_scheme \<Rightarrow> bool) \<Rightarrow>
   ('c, 'r, 'w, 'g, 'z) peer_scheme assertion" where
  "at_peer avail sent a b g V i out s \<longleftrightarrow> at_halves avail sent a b g i out (conn s) \<and> V s"

definition beside_conn :: "(('c, 'r, 'w, 'g, 'z) peer_scheme \<Rightarrow> bool) \<Rightarrow> bool" where
  "beside_conn V \<longleftrightarrow> (\<forall>s e. V (s\<lparr>conn := e\<rparr>) = V s)"

lemma plays_on_conn:
  assumes "plays (at_halves avail sent a b g) (run_st m) x (at_halves avail sent a' b' g') rd wr" and "beside_conn V"
  shows "plays (at_peer avail sent a b g V) (run_st (on_conn m)) x (at_peer avail sent a' b' g' V) rd wr"
  using assms unfolding plays_def at_peer_def run_st_def on_conn_def beside_conn_def
  by (fastforce simp: split_beta)

lemma plays_local:
  assumes "\<And>s. V s \<Longrightarrow> \<exists>s'. m s = (Ok x, s') \<and> conn s' = conn s \<and> V' s'"
  shows "plays (at_peer avail sent a b g V) (run_st m) x (at_peer avail sent a b g V') [] []"
  unfolding plays_def at_peer_def run_st_def using assms by fastforce

lemma peer_exchange:
  assumes "link_laws X avail sent" and "length (payload p) \<le> 34970"
  shows "\<exists>a' g' w. (\<forall>b V. beside_conn V \<longrightarrow> plays (at_peer avail sent a b g V) (run_st (peer_send X p)) ()
                              (at_peer avail sent a' b g' V) [] w) \<and>
                   (\<forall>b g1 V. beside_conn V \<longrightarrow> plays (at_peer avail sent b a g1 V) (run_st (on_conn (recv_packet X))) p
                              (at_peer avail sent b a' g1 V) w [])"
  using packet_exchange [OF assms, of a g] unfolding peer_send_def by (metis plays_on_conn)

text \<open>One message, from the left to the right or from the right to the left; what follows may rely on
  the packet and goes on with the halves of the session that result.\<close>

lemma say_left:
  assumes "link_laws X avail sent" and "length (payload p) \<le> 34970" and "beside_conn V" and "beside_conn U"
    and "\<And>a' gs'. dialogue (at_peer avail sent a' b gs' V) (f ()) x P' (at_peer avail sent b a' gc U) (h p) y Q'"
  shows "dialogue (at_peer avail sent a b gs V) (then_run (run_st (peer_send X p)) f) x P'
           (at_peer avail sent b a gc U) (then_run (run_st (on_conn (recv_packet X))) h) y Q'"
  using peer_exchange [OF assms(1,2), of a gs] assms(3-5) by (metis dialogue_then)

lemma say_right:
  assumes "link_laws X avail sent" and "length (payload p) \<le> 34970" and "beside_conn V" and "beside_conn U"
    and "\<And>b' gc'. dialogue (at_peer avail sent a b' gs V) (f p) x P' (at_peer avail sent b' a gc' U) (h ()) y Q'"
  shows "dialogue (at_peer avail sent a b gs V) (then_run (run_st (on_conn (recv_packet X))) f) x P'
           (at_peer avail sent b a gc U) (then_run (run_st (peer_send X p)) h) y Q'"
  using peer_exchange [OF assms(1,2), of b gc] assms(3-5) by (metis dialogue_then)

lemma tell_right:
  assumes "link_laws X avail sent" and "length (payload p) \<le> 34970" and "beside_conn V" and "beside_conn U"
    and "\<And>b' gc'. monologue (at_peer avail sent a b' gs V) (f p) x P' (at_peer avail sent b' c gc' U) (h ()) y Q'"
  shows "monologue (at_peer avail sent a b gs V) (then_run (run_st (on_conn (recv_packet X))) f) x P'
           (at_peer avail sent b c gc U) (then_run (run_st (peer_send X p)) h) y Q'"
  using peer_exchange [OF assms(1,2), of b gc] assms(3-5) by (metis monologue_then)

lemma say_unheard:
  assumes "link_laws X avail sent" and "length (payload p) \<le> 34970" and "beside_conn V"
    and "\<And>a' gs'. monologue (at_peer avail sent a' b gs' V) (f ()) x P' Q h y Q'"
  shows "monologue (at_peer avail sent a b gs V) (then_run (run_st (peer_send X p)) f) x P' Q h y Q'"
  using peer_exchange [OF assms(1,2), of a gs] assms(3-4) by (metis monologue_left)

end
