(* ===== verification/Remote_Command.thy ===== *)
theory Remote_Command
  imports Server Client Dialogue
begin

text \<open>
  The two programs against each other: \<open>handle_connection\<close> of \<open>src/bin/server.rs\<close> and
  \<open>run_client\<close> of \<open>src/bin/client.rs\<close> on the two ends of one connection.

  Each phase of the protocol is a dialogue of the server (left) with the client (right), stated
  for whatever follows it.
\<close>

section \<open>Login\<close>

definition fresh_peer ::
  "('r \<Rightarrow> bytes) \<Rightarrow> ('w \<Rightarrow> bytes) \<Rightarrow> 'g \<Rightarrow> (('c, 'r, 'w, 'g, 'z) peer_scheme \<Rightarrow> bool) \<Rightarrow>
   ('c, 'r, 'w, 'g, 'z) peer_scheme assertion" where
  "fresh_peer avail sent g V i out s \<longleftrightarrow> situated avail sent (i, out, SessionKeys_new, g) (conn s) \<and> V s"

lemma plays_runs:
  assumes "\<And>i out. runs avail sent m (rd @ i, out, SessionKeys_new, g) x (i, out @ wr, k, g')" and "beside_conn V"
  shows "plays (fresh_peer avail sent g V) (run_st (on_conn m)) x
           (at_peer avail sent (send_half k) (recv_half k) g' V) rd wr"
  unfolding plays_def
proof (intro allI impI)
  fix i out s
  assume s: "fresh_peer avail sent g V (rd @ i) out s"
  then obtain e where "m (conn s) = (Ok x, e)" "situated avail sent (i, out @ wr, k, g') e"
    using assms(1) unfolding fresh_peer_def runs_def by meson
  with s assms(2) show "\<exists>s'. run_st (on_conn m) s = Some (Ok x, s') \<and>
      at_peer avail sent (send_half k) (recv_half k) g' V i (out @ wr) s'"
    by (simp add: run_st_def on_conn_def at_peer_def at_halves_def situated_def fresh_peer_def beside_conn_def)
qed

lemma handshake_dialogue:
  assumes "link_laws X avail sent" and "dh_commutes X" and "beside_conn V" and "beside_conn U"
    and rest: "\<And>a b gs' gc'. dialogue (at_peer avail sent a b gs' V) (f ()) x P' (at_peer avail sent b a gc' U) (h ()) y Q'"
  shows "dialogue (fresh_peer avail sent gs V) (then_run (run_st (on_conn (server_handshake X))) f) x P'
           (fresh_peer avail sent gc U) (then_run (run_st (on_conn (client_handshake X))) h) y Q'"
proof -
  obtain ws wc res gs' gc' where
    s: "\<And>i o'. runs avail sent (server_handshake X) (wc @ i, o', clear_session 0 0, gs) ()
       (i, o' @ ws, session_of X res True (clear_session 3 3), gs')" and
    c: "\<And>i o'. runs avail sent (client_handshake X) (ws @ i, o', clear_session 0 0, gc) ()
       (i, o' @ wc, session_of X res False (clear_session 3 3), gc')"
    using handshake_runs [OF assms(1,2), of gs gc] by blast
  let ?s = "session_of X res True (clear_session 3 3)" and ?c = "session_of X res False (clear_session 3 3)"
  have "matched ?s ?c" by (rule session_of_matched) simp_all
  then have eq: "recv_half ?s = send_half ?c" "recv_half ?c = send_half ?s" by (simp_all add: matched_def fits_def)
  have ps: "plays (fresh_peer avail sent gs V) (run_st (on_conn (server_handshake X))) ()
      (at_peer avail sent (send_half ?s) (send_half ?c) gs' V) wc ws"
    using plays_runs [where k = ?s, OF s [folded clear_session_new] assms(3)] by (simp add: eq)
  have pc: "plays (fresh_peer avail sent gc U) (run_st (on_conn (client_handshake X))) ()
      (at_peer avail sent (send_half ?c) (send_half ?s) gc' U) ws wc"
    using plays_runs [where k = ?c, OF c [folded clear_session_new] assms(4)] by (simp add: eq)
  from ps pc rest show ?thesis by (rule dialogue_then)
qed

lemma login_names_ok: "str_ok ''ssh-userauth''" "str_ok ''ssh-connection''"
proof -
  have "ascii_str ''ssh-userauth''" "ascii_str ''ssh-connection''" by code_simp+
  then show "str_ok ''ssh-userauth''" "str_ok ''ssh-connection''"
    by (simp_all add: str_ok_def valid_str_ascii MAX_PACKET_SIZE_def)
qed

lemmas login_packets = build_service_request_def build_service_accept_def build_auth_success_def
  build_auth_failure_def SshPacket_new_def

lemma service_dialogue:
  assumes laws: "link_laws X avail sent" and "beside_conn V" and "beside_conn U"
    and rest: "\<And>a b gs gc. dialogue (at_peer avail sent a b gs V) (f ()) x P' (at_peer avail sent b a gc U) (h ()) y Q'"
  shows "dialogue (at_peer avail sent a b gs V) (then_run (run_st (on_conn (server_service X))) f) x P'
           (at_peer avail sent b a gc U) (then_run (run_st (on_conn (client_service X))) h) y Q'"
  unfolding server_service_def client_service_def expect_packet_def
  apply (simp add: sequential flip: peer_send_def)
  apply (rule say_right [OF laws _ assms(2,3)])
   apply (simp add: login_packets)
  apply (simp add: login_packets wire_simps wire_reads sequential login_names_ok flip: peer_send_def)
  apply (rule say_left [OF laws _ assms(2,3)])
   apply simp
  apply (simp add: sequential rest)
  done

lemma auth_dialogue:
  assumes laws: "link_laws X avail sent" and "beside_conn V" and "beside_conn U"
    and names: "str_ok usr" "str_ok pw" and small: "length usr + length pw \<le> 34000"
    and known: "verify_password db usr pw"
    and rest: "\<And>a b gs gc. dialogue (at_peer avail sent a b gs V) (f ()) x P' (at_peer avail sent b a gc U) (h ()) y Q'"
  shows "dialogue (at_peer avail sent a b gs V) (then_run (run_on_conn (loop_st (server_auth_step X db))) f) x P'
           (at_peer avail sent b a gc U) (then_run (run_st (on_conn (client_auth X usr (Some pw)))) h) y Q'"
  apply (subst loop_st_unfold)
  unfolding server_auth_step_def client_auth_def expect_packet_def
  apply (simp add: sequential flip: peer_send_def)
  apply (rule say_right [OF laws _ assms(2,3)])
   apply (use small in \<open>simp add: build_password_auth_request_def SshPacket_new_def\<close>)
  apply (simp add: sequential parse_password_request [OF names(1) login_names_ok(2) names(2)]
      credential_accepted_def known flip: peer_send_def)
  apply (rule say_left [OF laws _ assms(2,3)])
   apply (simp add: login_packets)
  apply (simp add: sequential rest login_packets)
  done

section \<open>The session channel\<close>

definition serving ::
  "ChannelManager \<Rightarrow> SftpHandler \<times> 'f \<Rightarrow> 'p \<Rightarrow> ('c, 'r, 'w, 'g, 'f, 'p) server_state \<Rightarrow> bool" where
  "serving m st p s \<longleftrightarrow> chans s = m \<and> sftp_state s = st \<and> procs s = p"

definition showing :: "string \<Rightarrow> string \<Rightarrow> ('c, 'r, 'w, 'g) client_state \<Rightarrow> bool" where
  "showing out err c \<longleftrightarrow> stdout c = out \<and> stderr c = err"

lemma beside_conn_views [simp]:
  "beside_conn (serving m st p)" "beside_conn (showing out err)"
  "beside_conn (\<lambda>c. chans c = m \<and> showing out err c)"
  by (simp_all add: beside_conn_def serving_def showing_def)

text \<open>The table of a server that has accepted one channel of this client.\<close>

definition one_channel :: "bool \<Rightarrow> ChannelManager" where
  "one_channel chk =
     snd (accept_channel chk 0 ''session'' DEFAULT_WINDOW_SIZE DEFAULT_MAX_PACKET_SIZE ChannelManager_new)"

lemma loop_receives:
  "dialogue P (then_run (run_st (on_conn (recv_packet X))) (\<lambda>p. then_run (run_st (handler p)) (\<lambda>stop.
     if stop then run_st (return_st ()) else loop_st (peer_step X handler)))) x P' Q g y Q' \<Longrightarrow>
   dialogue P (loop_st (peer_step X handler)) x P' Q g y Q'"
  by (subst loop_st_unfold) (erule dialogue_covered(1) [OF _ peer_step_covers])

lemma new_channel_sel:
  "local_id (Channel_new i t) = i" "local_window (Channel_new i t) = DEFAULT_WINDOW_SIZE"
  "local_max_packet (Channel_new i t) = DEFAULT_MAX_PACKET_SIZE"
  by (simp_all add: Channel_new_def)

lemma dispatch:
  "msg_type p = msg_u8 ChannelOpen \<Longrightarrow> server_message W p = bind_st (server_channel_open W p) (\<lambda>_. return_st False)"
  "msg_type p = msg_u8 ChannelRequest \<Longrightarrow> server_message W p = bind_st (server_channel_request W p) (\<lambda>_. return_st False)"
  "msg_type p = msg_u8 ChannelClose \<Longrightarrow> server_message W p = bind_st (server_channel_close W p) (\<lambda>_. return_st False)"
  "msg_type p = msg_u8 Disconnect \<Longrightarrow> server_message W p = return_st True"
  by (simp_all only: server_message_def from_u8_msg_u8 option.case MessageType.case)

lemmas channel_packets = build_channel_open_def build_channel_open_confirmation_def build_exec_request_def
  build_channel_data_def build_channel_eof_def build_channel_close_def SshPacket_new_def

lemma packet_types:
  "msg_type (build_channel_open t i w x) = msg_u8 ChannelOpen"
  "msg_type (build_channel_open_confirmation r i w x) = msg_u8 ChannelOpenConfirmation"
  "msg_type (build_exec_request r cmd want) = msg_u8 ChannelRequest"
  "msg_type (build_channel_data r d) = msg_u8 ChannelData"
  "msg_type (build_channel_eof r) = msg_u8 ChannelEof"
  "msg_type (build_channel_close r) = msg_u8 ChannelClose"
  by (simp_all add: channel_packets)

lemma accept_plays:
  "plays (at_peer avail sent a b gs (serving ChannelManager_new st p))
     (run_st (server_accept W \<lparr>open_channel_type = ''session'', open_sender_channel = 0,
        open_initial_window = DEFAULT_WINDOW_SIZE, open_max_packet = DEFAULT_MAX_PACKET_SIZE\<rparr>)) 0
     (at_peer avail sent a b gs (serving (one_channel (overflow_checks W)) st p)) [] []"
  by (rule plays_local)
     (auto simp: server_accept_def one_channel_def accept_channel_def ChannelManager_new_def add_u32_def serving_def Let_def)

lemma open_dialogue:
  assumes laws: "link_laws (net W) avail sent"
    and rest: "\<And>a b gs gc. dialogue (at_peer avail sent a b gs (serving (one_channel (overflow_checks W)) st p))
        (loop_st (server_step W)) () P' (at_peer avail sent b a gc (showing out err)) (h 0) y Q'"
  shows "dialogue (at_peer avail sent a b gs (serving ChannelManager_new st p)) (loop_st (server_step W)) () P'
           (at_peer avail sent b a gc (\<lambda>c. chans c = ChannelManager_new \<and> showing out err c))
           (then_run (run_st (client_open_channel (net W) chk)) h) y Q'"
proof -
  let ?ch = "Channel_new 0 ''session''"
  let ?m = "\<lparr>channels = [0 \<mapsto> ?ch], next_id = 1\<rparr>"
  have new: "plays (at_peer avail sent b a gc (\<lambda>c. chans c = ChannelManager_new \<and> showing out err c))
      (run_st (client_new_channel chk)) (0, ?ch)
      (at_peer avail sent b a gc (\<lambda>c. chans c = ?m \<and> showing out err c)) [] []"
    by (rule plays_local)
       (auto simp: client_new_channel_def open_channel_def ChannelManager_new_def get_channel_def add_u32_def
         bind_st_def return_st_def showing_def Let_def)
  have confirm: "plays (at_peer avail sent b' a' gc (\<lambda>c. chans c = ?m \<and> showing out err c))
      (run_st (client_confirm 0 (payload (build_channel_open_confirmation 0 0 win maxp)))) 0
      (at_peer avail sent b' a' gc (showing out err)) [] []" for a' b' gc win maxp
    by (rule plays_local)
       (auto simp: client_confirm_def build_channel_open_confirmation_def SshPacket_new_def wire_simps wire_reads
         confirm_channel_def showing_def bind_st_def return_st_def Let_def)
  show ?thesis
    unfolding client_open_channel_def expect_packet_def
    apply (simp add: sequential flip: peer_send_def)
    apply (rule dialogue_right [OF new])
    apply (unfold server_step_def)
    apply (rule loop_receives)
    apply (simp add: sequential new_channel_sel)
    apply (rule say_right [OF laws])
       apply (simp_all add: channel_packets) [3]
    apply (simp add: dispatch(1) packet_types server_channel_open_def sequential parse_channel_open session_ok)
    apply (rule dialogue_left [OF accept_plays])
    apply (rule say_left [OF laws])
       apply (simp_all add: channel_packets) [3]
    apply (simp add: packet_types sequential)
    apply (rule dialogue_right [OF confirm])
    apply (rule rest [unfolded server_step_def])
    done
qed

section \<open>Running a command\<close>

lemma client_loop_receives:
  assumes "dialogue P f x P' Q (then_run (run_st (on_conn (recv_packet X))) (\<lambda>p. then_run (run_st (handler p)) (\<lambda>stop.
     if stop then k () else then_run (loop_st (peer_step X handler)) k))) y Q'"
  shows "dialogue P f x P' Q (then_run (loop_st (peer_step X handler)) k) y Q'"
proof -
  have "then_run (loop_st (peer_step X handler)) k = then_run (run_st (peer_step X handler)) (\<lambda>stop.
     if stop then k () else then_run (loop_st (peer_step X handler)) k)"
    by (subst loop_st_unfold) (simp add: then_run_assoc if_distrib [where f = "\<lambda>m. then_run m k"] cong: if_cong)
  with dialogue_covered(2) [OF assms peer_step_covers] show ?thesis by simp
qed

lemma client_dispatch:
  "msg_type p = msg_u8 ChannelData \<Longrightarrow> client_exec_message X r p =
     bind_st (lift_st (ChannelDataMsg_parse (payload p))) (\<lambda>msg. bind_st (print_out (data_data msg)) (\<lambda>_. return_st False))"
  "msg_type p = msg_u8 ChannelSuccess \<Longrightarrow> client_exec_message X r p = return_st False"
  "msg_type p = msg_u8 ChannelEof \<Longrightarrow> client_exec_message X r p = return_st False"
  "msg_type p = msg_u8 ChannelClose \<Longrightarrow> client_exec_message X r p =
     bind_st (peer_send X (build_channel_close r)) (\<lambda>_. return_st True)"
  by (simp_all only: client_exec_message_def from_u8_msg_u8 option.case MessageType.case)

lemma find_one_channel:
  assumes "iterates iter"
  shows "\<exists>ch. find_by_remote_id iter (one_channel chk) 0 = Some ch \<and> remote_id ch = 0 \<and> \<not> closed ch"
proof -
  have "mgr_ok (one_channel chk)"
    by (auto simp: one_channel_def accept_channel_def ChannelManager_new_def add_u32_def mgr_ok_def Channel_new_def)
  then show ?thesis
    using find_by_remote_id_None [OF assms, of "one_channel chk" 0] find_by_remote_id_Some [OF assms, of "one_channel chk" 0]
    by (cases "find_by_remote_id iter (one_channel chk) 0")
       (auto simp: one_channel_def accept_channel_def ChannelManager_new_def add_u32_def Channel_new_def split: if_splits)
qed

lemma lookup_plays:
  assumes "iterates (chan_iter W)"
  shows "plays (at_peer avail sent a b gs (serving (one_channel chk) st p)) (run_st (lookup_channel W 0)) 0
           (at_peer avail sent a b gs (serving (one_channel chk) st p)) [] []"
  by (rule plays_local) (use find_one_channel [OF assms, of chk] in \<open>auto simp: lookup_channel_def serving_def\<close>)

lemma execute_plays:
  assumes "split_whitespace cmd = prog # args" and "command_output W p prog args = (Inr (out, err), p')"
  shows "plays (at_peer avail sent a b gs (serving m st p)) (run_st (execute_command W cmd))
           (from_utf8_lossy out @ from_utf8_lossy err) (at_peer avail sent a b gs (serving m st p')) [] []"
  by (rule plays_local) (use assms in \<open>auto simp: execute_command_def serving_def Let_def\<close>)

lemma print_plays:
  "valid_str s \<Longrightarrow> plays (at_peer avail sent b a gc (showing so se)) (run_st (print_out (as_bytes s))) ()
     (at_peer avail sent b a gc (showing (so @ s) se)) [] []"
  by (rule plays_local) (auto simp: print_out_def showing_def from_utf8_lossy_valid)

lemma exec_dialogue:
  fixes W :: "('c, 'r, 'w, 'g, 'f, 'h, 'p) server_ops"
  assumes laws: "link_laws (net W) avail sent" and iter: "iterates (chan_iter W)"
    and cmd: "str_ok cmd" "length cmd \<le> 34000"
    and run: "split_whitespace cmd = prog # args" "command_output W p prog args = (Inr (out, err), p')"
    and shown: "output = from_utf8_lossy out @ from_utf8_lossy err" "length output \<le> 34000"
    and rest: "\<And>a b gs gc. monologue (at_peer avail sent a b gs (serving (one_channel chk) st p'))
        (loop_st (server_step W)) () P'
        (at_peer avail sent b a gc (showing (so @ output) se)) (then_run (run_st (peer_send (net W) (build_channel_close 0))) h) y Q'"
  shows "dialogue (at_peer avail sent a b gs (serving (one_channel chk) st p)) (loop_st (server_step W)) () P'
           (at_peer avail sent b a gc (showing so se)) (then_run (client_exec (net W) 0 cmd) h) y Q'"
proof -
  have ok: "valid_str output" "blob_ok (as_bytes output)"
    using shown by (auto simp: valid_str_append blob_ok_def MAX_PACKET_SIZE_def)
  show ?thesis
    unfolding client_exec_def server_step_def
    apply (rule loop_receives)
    apply (simp add: sequential)
    apply (rule say_right [OF laws])
       apply (use cmd in \<open>simp_all add: channel_packets\<close>) [3]
    apply (simp add: dispatch(2) packet_types server_channel_request_def server_exec_def sequential parse_exec_request cmd
       wire_simps wire_reads)
    apply (rule dialogue_left [OF execute_plays [OF run]])
    apply (rule dialogue_left [OF lookup_plays [OF iter]])
    apply (rule client_loop_receives)
    apply (rule say_left [OF laws])
       apply (simp_all add: SshPacket_new_def) [3]
    apply (simp add: client_dispatch(2) SshPacket_new_def flip: shown(1))
    apply (rule client_loop_receives)
    apply (rule say_left [OF laws])
       apply (use shown(2) in \<open>simp_all add: channel_packets\<close>) [3]
    apply (simp add: client_dispatch(1) packet_types parse_channel_data ok sequential)
    apply (rule dialogue_right [OF print_plays [OF ok(1)]])
    apply (rule client_loop_receives)
    apply (rule say_left [OF laws])
       apply (simp_all add: channel_packets) [3]
    apply (simp add: client_dispatch(3) packet_types)
    apply (rule client_loop_receives)
    apply (rule say_left [OF laws])
       apply (simp_all add: channel_packets) [3]
    apply (simp add: client_dispatch(4) packet_types sequential)
    apply (rule monologue_dialogue)
    apply (rule rest [unfolded server_step_def])
    done
qed

text \<open>The end: the server answers the close of the client with a second one that nobody reads, and
  leaves its loop at the disconnect message.\<close>

definition ended ::
  "('r \<Rightarrow> bytes) \<Rightarrow> ('w \<Rightarrow> bytes) \<Rightarrow> (('c, 'r, 'w, 'g, 'z) peer_scheme \<Rightarrow> bool) \<Rightarrow> ('c, 'r, 'w, 'g, 'z) peer_scheme assertion" where
  "ended avail sent V i out s \<longleftrightarrow> avail (rdr (conn s)) = i \<and> sent (wtr (conn s)) = out \<and> V s"

lemma plays_ended: "plays (at_peer avail sent a b g V) (run_st (return_st x)) x (ended avail sent V) [] []"
  by (auto simp: plays_def run_st_def return_st_def at_peer_def at_halves_def ended_def)

lemma monologue_ended:
  "monologue (at_peer avail sent a b g V) (run_st (return_st x)) x (ended avail sent V)
     (at_peer avail sent c d g' U) (run_st (return_st y)) y (ended avail sent U)"
  unfolding monologue_def using plays_ended by metis

lemma monologue_same:
  assumes "monologue P (then_run (run_st m) k) x P' Q g y Q'" and "\<And>i out s. P i out s \<Longrightarrow> m' s = m s"
  shows "monologue P (then_run (run_st m') k) x P' Q g y Q'"
proof -
  have "then_run (run_st m') k s = then_run (run_st m) k s" if "P i out s" for i out s
    using assms(2) [OF that] by (simp add: then_run_def run_st_def)
  then have "plays P (then_run (run_st m') k) x P' rd wr" if "plays P (then_run (run_st m) k) x P' rd wr" for rd wr
    using that unfolding plays_def by metis
  with assms(1) show ?thesis unfolding monologue_def by blast
qed

lemma loop_hears:
  "monologue P (then_run (run_st (on_conn (recv_packet X))) (\<lambda>p. then_run (run_st (handler p)) (\<lambda>stop.
     if stop then run_st (return_st ()) else loop_st (peer_step X handler)))) x P' Q g y Q' \<Longrightarrow>
   monologue P (loop_st (peer_step X handler)) x P' Q g y Q'"
  by (subst loop_st_unfold) (erule monologue_covered [OF _ peer_step_covers])

lemma end_monologue:
  fixes W :: "('c, 'r, 'w, 'g, 'f, 'h, 'p) server_ops"
  assumes laws: "link_laws (net W) avail sent" and iter: "iterates (chan_iter W)"
  shows "monologue (at_peer avail sent a b gs (serving (one_channel chk) st p)) (loop_st (server_step W)) ()
           (ended avail sent (serving (one_channel chk) st p))
           (at_peer avail sent b a gc (showing so se))
           (then_run (run_st (peer_send (net W) (build_channel_close 0))) (\<lambda>_. run_st (peer_send (net W) disconnect_packet))) ()
           (ended avail sent (showing so se))"
proof -
  have close: "server_channel_close W (build_channel_close 0) s = server_send W (build_channel_close 0) s"
    if "serving (one_channel chk) st p s" for s
    using find_one_channel [OF iter, of chk] that
    by (auto simp: server_channel_close_def serving_def build_channel_close_def SshPacket_new_def wire_simps wire_reads)
  show ?thesis
    unfolding server_step_def
    apply (rule loop_hears)
    apply (rule tell_right [OF laws])
       apply (simp_all add: channel_packets) [3]
    apply (simp add: dispatch(3) packet_types sequential)
    apply (rule monologue_same [where m = "server_send W (build_channel_close 0)"])
     apply (rule say_unheard [OF laws])
       apply (simp_all add: channel_packets) [2]
     apply (rule loop_hears)
     apply (subst then_run_end [where f = "run_st (peer_send (net W) disconnect_packet)", symmetric])
     apply (rule tell_right [OF laws])
        apply (simp_all add: disconnect_packet_def SshPacket_new_def) [3]
     apply (simp add: dispatch(4) disconnect_packet_def SshPacket_new_def monologue_ended)
    apply (simp add: close at_peer_def)
    done
qed

section \<open>A remote command\<close>


lemma ends_only:
  assumes "\<exists>ws u wc. \<forall>rs rc ws0 wc0 is ic. rs = wc @ is \<and> rc = ws @ ic \<longrightarrow> Q ws u wc rs rc ws0 wc0 is ic"
  shows "\<exists>ws u wc. Q ws u wc wc ws [] [] [] []"
  using assms by (metis append_Nil2)


section \<open>Closing a channel\<close>


text \<open>A server that has accepted a channel.\<close>

lemma open_step:
  fixes W :: "('c, 'r, 'w, 'g, 'f, 'h, 'p) server_ops"
  assumes laws: "link_laws (net W) avail sent"
  shows "\<exists>a' b' g' rd wr. plays (at_peer avail sent a b g (serving ChannelManager_new st p)) (run_st (server_step W)) False
           (at_peer avail sent a' b' g' (serving (one_channel (overflow_checks W)) st p)) rd wr"
proof -
  let ?open = "build_channel_open ''session'' 0 DEFAULT_WINDOW_SIZE DEFAULT_MAX_PACKET_SIZE"
  let ?reply = "build_channel_open_confirmation 0 0 DEFAULT_WINDOW_SIZE DEFAULT_MAX_PACKET_SIZE"
  let ?S = "\<lambda>a b g m. at_peer avail sent a b g (serving m st p)" and ?m = "one_channel (overflow_checks W)"
  have small: "length (payload ?open) \<le> 34970" "length (payload ?reply) \<le> 34970" by (simp_all add: channel_packets)
  obtain b' rd where r: "plays (?S a b g ChannelManager_new) (run_st (on_conn (recv_packet (net W)))) ?open
      (?S a b' g ChannelManager_new) rd []"
    using peer_exchange [OF laws small(1), of b g] beside_conn_views(1) by metis
  obtain a' g' wr where w: "plays (?S a b' g ?m) (run_st (server_send W ?reply)) () (?S a' b' g' ?m) [] wr"
    using peer_exchange [OF laws small(2), of a g] beside_conn_views(1) by metis
  have "plays (?S a b' g ChannelManager_new) (run_st (server_message W ?open)) False (?S a' b' g' ?m) [] wr"
    using plays_then [where g = "\<lambda>i. then_run (run_st (server_send W (build_channel_open_confirmation 0 i
        DEFAULT_WINDOW_SIZE DEFAULT_MAX_PACKET_SIZE))) (\<lambda>_. run_st (return_st False))",
        OF accept_plays plays_then [where g = "\<lambda>_. run_st (return_st False)", OF w plays_return]]
    by (simp add: dispatch(1) packet_types server_channel_open_def sequential parse_channel_open session_ok)
  from plays_then [OF r, where g = "\<lambda>p. run_st (server_message W p)", OF this]
  have "plays (?S a b g ChannelManager_new)
      (then_run (run_st (on_conn (recv_packet (net W)))) (\<lambda>p. then_run (run_st (server_message W p)) (\<lambda>x. run_st (return_st x))))
      False (?S a' b' g' ?m) rd wr" by (simp add: then_run_end)
  from plays_covered [OF peer_step_covers this] show ?thesis
    unfolding server_step_def then_run_end by blast
qed


end
