(* ===== verification/Remote_Sessions.thy ===== *)
theory Remote_Sessions
  imports Remote_Command
begin

text \<open>
  Further conversations of the server with a peer: a login with a wrong password, and a file
  transfer request on an open channel. Both are stated for any two endpoints with matched
  sessions, whatever was sent before.
\<close>

section \<open>A request and its reply\<close>

text \<open>Byte sequences with which one side, reading \<open>wc\<close>, receives \<open>p\<close> and sends \<open>q\<close>, while the other,
  reading \<open>ws\<close>, sends \<open>p\<close> and receives \<open>q\<close>.\<close>

definition answered ::
  "('c, 'r, 'w, 'g) ext_ops \<Rightarrow> ('r \<Rightarrow> bytes) \<Rightarrow> ('w \<Rightarrow> bytes) \<Rightarrow> SshPacket \<Rightarrow> SshPacket \<Rightarrow> 'c SessionKeys \<times> 'g \<Rightarrow>
   'c SessionKeys \<times> 'g \<Rightarrow> bytes \<Rightarrow> bytes \<Rightarrow> bool" where
  "answered X avail sent p q server client ws wc \<longleftrightarrow>
     (\<forall>e c is ic. (sess e, rng e) = server \<and> avail (rdr e) = wc @ is \<and> (sess c, rng c) = client \<and> avail (rdr c) = ws @ ic \<longrightarrow>
     (\<exists>e1 e2 c1 c2. recv_packet X e = (Ok p, e1) \<and> send_packet X q e1 = (Ok (), e2) \<and>
        send_packet X p c = (Ok (), c1) \<and> recv_packet X c1 = (Ok q, c2) \<and>
        sent (wtr e2) = sent (wtr e) @ ws \<and> sent (wtr c2) = sent (wtr c) @ wc \<and>
        avail (rdr e2) = is \<and> avail (rdr c2) = ic \<and> matched (sess e2) (sess c2)))"

lemma answeredE:
  assumes "answered X avail sent p q (sess e, rng e) (sess c, rng c) ws wc" and "avail (rdr e) = wc @ is" and "avail (rdr c) = ws @ ic"
  obtains e1 e2 c1 c2 where "recv_packet X e = (Ok p, e1)" "send_packet X q e1 = (Ok (), e2)"
    "send_packet X p c = (Ok (), c1)" "recv_packet X c1 = (Ok q, c2)"
    "sent (wtr e2) = sent (wtr e) @ ws" "sent (wtr c2) = sent (wtr c) @ wc"
    "avail (rdr e2) = is" "avail (rdr c2) = ic" "matched (sess e2) (sess c2)"
  using assms(1) [unfolded answered_def, rule_format, of e "is" c ic] assms(2,3) by blast

lemma request_reply:
  fixes X :: "('c, 'r, 'w, 'g) ext_ops"
  assumes laws: "link_laws X avail sent" and small: "length (payload p) \<le> 34970" "length (payload q) \<le> 34970"
    and m: "matched k l"
  shows "\<exists>ws wc. answered X avail sent p q (k, gs) (l, gc) ws wc"
proof -
  let ?at = "at_halves avail sent"
  have eq: "recv_half k = send_half l" "recv_half l = send_half k" using m by (simp_all add: matched_def fits_def)
  obtain b gc' wc where c1: "\<And>rh. plays (?at (send_half l) rh gc) (run_st (send_packet X p)) () (?at b rh gc') [] wc"
    and s1: "\<And>sh g. plays (?at sh (send_half l) g) (run_st (recv_packet X)) p (?at sh b g) wc []"
    using packet_exchange [OF laws small(1), of "send_half l" gc] by metis
  obtain a gs' ws where s2: "\<And>rh. plays (?at (send_half k) rh gs) (run_st (send_packet X q)) () (?at a rh gs') [] ws"
    and c2: "\<And>sh g. plays (?at sh (send_half k) g) (run_st (recv_packet X)) q (?at sh a g) ws []"
    using packet_exchange [OF laws small(2), of "send_half k" gs] by metis
  have "\<exists>e1 e2 c1 c2. recv_packet X e = (Ok p, e1) \<and> send_packet X q e1 = (Ok (), e2) \<and>
        send_packet X p c = (Ok (), c1) \<and> recv_packet X c1 = (Ok q, c2) \<and>
        sent (wtr e2) = sent (wtr e) @ ws \<and> sent (wtr c2) = sent (wtr c) @ wc \<and>
        avail (rdr e2) = is \<and> avail (rdr c2) = ic \<and> matched (sess e2) (sess c2)"
    if at: "sess e = k \<and> rng e = gs \<and> avail (rdr e) = wc @ is \<and> sess c = l \<and> rng c = gc \<and> avail (rdr c) = ws @ ic"
    for e c "is" ic
  proof -
    have h: "?at (send_half k) (send_half l) gs (wc @ is) (sent (wtr e)) e"
      "?at (send_half l) (send_half k) gc ([] @ ws @ ic) (sent (wtr c)) c"
      using at eq by (simp_all add: at_halves_def)
    obtain e1 where e1: "recv_packet X e = (Ok p, e1)" "?at (send_half k) b gs ([] @ is) (sent (wtr e)) e1"
      using playsD [OF s1 h(1)] by auto
    obtain c1 where c1: "send_packet X p c = (Ok (), c1)" "?at b (send_half k) gc' (ws @ ic) (sent (wtr c) @ wc) c1"
      using playsD [OF c1 h(2)] by auto
    obtain e2 where e2: "send_packet X q e1 = (Ok (), e2)" "?at a b gs' is (sent (wtr e) @ ws) e2"
      using playsD [OF s2 e1(2)] by auto
    obtain c2 where c2: "recv_packet X c1 = (Ok q, c2)" "?at b a gc' ic (sent (wtr c) @ wc) c2"
      using playsD [OF c2 c1(2)] by auto
    from e1(1) e2 c1(1) c2 show ?thesis by (auto simp: at_halves_def matched_def fits_def)
  qed
  then have "answered X avail sent p q (k, gs) (l, gc) ws wc" unfolding answered_def by blast
  then show ?thesis by blast
qed

section \<open>A wrong password\<close>

text \<open>C10. A wrong password is rejected: the server answers the request with a failure and waits for the
  next request, the client returns the error \<open>AuthFailed\<close>, and the sessions match again. Nothing but
  this request and this answer is written.\<close>

theorem wrong_password_rejected:
  fixes X :: "('c, 'r, 'w, 'g) ext_ops"
  assumes laws: "link_laws X avail sent" and names: "str_ok usr" "str_ok pw"
    and small: "length usr + length pw \<le> 34000" and wrong: "\<not> verify_password db usr pw" and m: "matched k l"
  shows "\<exists>ws wc. \<forall>e c is ic. sess e = k \<and> rng e = gs \<and> avail (rdr e) = wc @ is \<and>
     sess c = l \<and> rng c = gc \<and> avail (rdr c) = ws @ ic \<longrightarrow>
     (\<exists>e' c'. server_auth_step X db e = (Ok False, e') \<and>
        client_auth X usr (Some pw) c = (Err (AuthFailed ''Authentication rejected by server''), c') \<and>
        sent (wtr e') = sent (wtr e) @ ws \<and> sent (wtr c') = sent (wtr c) @ wc \<and>
        avail (rdr e') = is \<and> avail (rdr c') = ic \<and> matched (sess e') (sess c'))"
proof -
  let ?req = "build_password_auth_request usr ''ssh-connection'' pw" and ?no = "build_auth_failure auth_methods False"
  have len: "length (payload ?req) \<le> 34970" "length (payload ?no) \<le> 34970"
    using small by (simp_all add: build_password_auth_request_def build_auth_failure_def auth_methods_def SshPacket_new_def
        write_name_list_def)
  have req: "msg_type ?req = msg_u8 UserAuthRequest" "AuthRequest_parse (payload ?req) =
      Ok \<lparr>username = usr, service = ''ssh-connection'', auth_method = ''password'', credential = Password pw\<rparr>"
    using parse_password_request [OF names(1) login_names_ok(2) names(2)] by blast+
  have no: "msg_type ?no = msg_u8 UserAuthFailure" by (simp add: build_auth_failure_def SshPacket_new_def)
  have server: "server_auth_step X db e = (Ok False, e2)"
    if "recv_packet X e = (Ok ?req, e1)" "send_packet X ?no e1 = (Ok (), e2)" for e e1 e2
    using that req wrong by (simp add: server_auth_step_def expect_packet_def credential_accepted_def bind_st_def return_st_def)
  have client: "client_auth X usr (Some pw) c = (Err (AuthFailed ''Authentication rejected by server''), c2)"
    if "send_packet X ?req c = (Ok (), c1)" "recv_packet X c1 = (Ok ?no, c2)" for c c1 c2
    using that no by (simp add: client_auth_def bind_st_def fail_st_def)
  from request_reply [OF laws len m, of gs gc] obtain ws wc where w: "answered X avail sent ?req ?no (k, gs) (l, gc) ws wc" by blast
  have "\<exists>e' c'. server_auth_step X db e = (Ok False, e') \<and>
        client_auth X usr (Some pw) c = (Err (AuthFailed ''Authentication rejected by server''), c') \<and>
        sent (wtr e') = sent (wtr e) @ ws \<and> sent (wtr c') = sent (wtr c) @ wc \<and>
        avail (rdr e') = is \<and> avail (rdr c') = ic \<and> matched (sess e') (sess c')"
    if "sess e = k \<and> rng e = gs \<and> avail (rdr e) = wc @ is \<and> sess c = l \<and> rng c = gc \<and> avail (rdr c) = ws @ ic"
    for e c "is" ic
    by (rule answeredE [of X avail sent ?req ?no e c ws wc "is" ic]) (use that w server client in \<open>auto intro!: exI\<close>)
  then show ?thesis by blast
qed

theorem wrong_password_rejected_witness:
  "\<exists>ws wc e' c'. server_auth_step demo_ext server_users (demo_endpoint wc) = (Ok False, e') \<and>
     client_auth demo_ext ''user'' (Some ''guess'') (demo_endpoint ws) =
       (Err (AuthFailed ''Authentication rejected by server''), c') \<and> wtr e' = ws \<and> wtr c' = wc"
proof -
  have "ascii_str ''user''" "ascii_str ''guess''" by code_simp+
  then have ok: "str_ok ''user''" "str_ok ''guess''" by (simp_all add: str_ok_def valid_str_ascii MAX_PACKET_SIZE_def)
  have wrong: "\<not> verify_password server_users ''user'' ''guess''"
    by (simp add: verify_password_def server_users_def add_password_user_def UserDatabase_new_def Let_def)
  have guess: "length ''user'' + length ''guess'' \<le> 34000" by simp
  obtain ws wc where h: "\<And>e c is ic. sess e = SessionKeys_new \<and> rng e = () \<and> rdr e = wc @ is \<and>
     sess c = SessionKeys_new \<and> rng c = () \<and> rdr c = ws @ ic \<Longrightarrow>
     \<exists>e' c'. server_auth_step demo_ext server_users e = (Ok False, e') \<and>
        client_auth demo_ext ''user'' (Some ''guess'') c = (Err (AuthFailed ''Authentication rejected by server''), c') \<and>
        wtr e' = wtr e @ ws \<and> wtr c' = wtr c @ wc"
    using wrong_password_rejected [OF demo_link_laws ok guess wrong matched_new, of "()" "()"] by (elim exE) (rule that, blast)
  from h [of "demo_endpoint wc" "[]" "demo_endpoint ws" "[]"] show ?thesis by (auto simp: demo_endpoint_def)
qed

section \<open>A file transfer request\<close>

lemma server_step_data:
  assumes "recv_packet (net W) (conn s) = (Ok (build_channel_data i (SftpPacket_encode req)), e)"
    and "length (SftpPacket_encode req) \<le> 34900" and "find_by_remote_id (chan_iter W) (chans s) i = Some ch"
    and "handle_request (overflow_checks W) (files W) req (sftp_state s) = (Ok resp, st')"
    and "send_packet (net W) (build_channel_data i (SftpPacket_encode resp)) e = (Ok (), e')"
  shows "server_step W s = (Ok False, s\<lparr>conn := e', sftp_state := st'\<rparr>)"
proof -
  let ?d = "SftpPacket_encode req"
  have len: "length (sftp_data req) + 5 < 2 ^ 32" "blob_ok ?d" "9 \<le> length ?d"
    using assms(2) by (simp_all add: length_encoded blob_ok_def MAX_PACKET_SIZE_def)
  have dec: "SftpPacket_decode (drop 4 ?d) = Ok req" "unat (from_be_bytes_u32 (take 4 ?d)) = length (drop 4 ?d)"
    using decode_encoded [OF len(1)] by blast+
  have rid: "remote_id ch = i" using assms(3) by (auto simp: find_by_remote_id_def find_Some_iff)
  have "server_channel_data W (build_channel_data i ?d) (s\<lparr>conn := e\<rparr>) = (Ok (), s\<lparr>conn := e', sftp_state := st'\<rparr>)"
    using len dec assms(3-5) rid
    by (simp add: server_channel_data_def parse_channel_data server_sftp_def lookup_channel_def peer_send_def on_conn_def
        bind_st_def return_st_def Let_def)
  then show ?thesis
    using assms(1)
    by (simp add: server_step_def peer_step_def on_conn_def server_message_def packet_types from_u8_def bind_st_def return_st_def)
qed



end
