(* ===== verification/Programs.thy ===== *)
theory Programs
  imports Server Client
begin

text \<open>
  The two programs: \<open>main\<close> of \<open>src/bin/server.rs\<close> and of \<open>src/bin/client.rs\<close>.

  The server accepts connections for ever and spawns a task for each. The tasks share the user
  database, which never changes, the file system and the processes; everything else belongs to one
  task. The state \<open>service\<close> keeps the tasks that are logged in, with the shared parts beside them,
  and an event of a schedule is an accepted connection, an error of the listener, or a message that
  a task receives and handles. A task touches nothing shared before its channel loop, so that its
  handshake and authentication are one step, taken when it is accepted; a message is handled as one
  step (the handlers of file requests do not wait in between; that two of them may overlap on two
  threads is not modelled).

  Creating directories, binding and connecting are parameters; logging and the parsing of the
  command line are left out.

  Shown here: a connection that has the server for itself does what \<open>handle_connection\<close> does; for
  every schedule the service leaves the file system outside the root alone, changes something
  shared only after one of its peers has presented a credential of the database, and a task is
  changed by its own steps only.
\<close>

section \<open>The server\<close>

record ('c, 'r, 'w, 'g, 'f, 'p) service =
  live :: "nat \<rightharpoonup> ('c, 'r, 'w, 'g, 'f, 'p) server_state"
  disk :: 'f
  processes :: 'p
  accepted :: nat

datatype ('r, 'w, 'g) event =
  Accepted 'r 'w 'g
| AcceptFailed io_error
| Handles nat

definition idle_service :: "'f \<Rightarrow> 'p \<Rightarrow> ('c, 'r, 'w, 'g, 'f, 'p) service" where
  "idle_service f p = \<lparr>live = Map.empty, disk = f, processes = p, accepted = 0\<rparr>"

text \<open>A new task runs \<open>handle_connection\<close> up to its channel loop. A task that fails before, or waits for
  ever, is never heard of again.\<close>

definition spawn_task ::
  "('c, 'r, 'w, 'g, 'f, 'h, 'p) server_ops \<Rightarrow> UserDatabase \<Rightarrow> ServerConfig \<Rightarrow> 'r \<Rightarrow> 'w \<Rightarrow> 'g \<Rightarrow>
   ('c, 'r, 'w, 'g, 'f, 'p) service \<Rightarrow> ('c, 'r, 'w, 'g, 'f, 'p) service" where
  "spawn_task W db config r w g v =
     (case run_on_conn (server_login (net W) db) (server_start config r w g (disk v) (processes v)) of
        Some (Ok _, s) \<Rightarrow> v\<lparr>live := (live v)(accepted v \<mapsto> s), accepted := accepted v + 1\<rparr>
      | _ \<Rightarrow> v\<lparr>accepted := accepted v + 1\<rparr>)"

text \<open>A task sees the file system and the processes as they are when it handles a message. It ends when
  its loop does, and an error or a panic ends this task only.\<close>

definition task_step ::
  "('c, 'r, 'w, 'g, 'f, 'h, 'p) server_ops \<Rightarrow> nat \<Rightarrow>
   ('c, 'r, 'w, 'g, 'f, 'p) service \<Rightarrow> ('c, 'r, 'w, 'g, 'f, 'p) service" where
  "task_step W i v =
     (case live v i of
        None \<Rightarrow> v
      | Some s \<Rightarrow>
          (case server_step W (s\<lparr>sftp_state := (fst (sftp_state s), disk v), procs := processes v\<rparr>) of
             (r, s') \<Rightarrow>
               v\<lparr>live := (live v)(i := (case r of Ok stop \<Rightarrow> if stop then None else Some s' | _ \<Rightarrow> None)),
                 disk := snd (sftp_state s'), processes := procs s'\<rparr>))"

text \<open>The loop of \<open>main\<close> and its tasks over a schedule; the result says whether \<open>main\<close> has returned,
  which is possible with an error of the listener only.\<close>

primrec serve ::
  "('c, 'r, 'w, 'g, 'f, 'h, 'p) server_ops \<Rightarrow> UserDatabase \<Rightarrow> ServerConfig \<Rightarrow> ('r, 'w, 'g) event list \<Rightarrow>
   ('c, 'r, 'w, 'g, 'f, 'p) service \<Rightarrow> io_error option \<times> ('c, 'r, 'w, 'g, 'f, 'p) service" where
  "serve W db config [] v = (None, v)"
| "serve W db config (ev # evs) v =
     (case ev of
        Accepted r w g \<Rightarrow> serve W db config evs (spawn_task W db config r w g v)
      | AcceptFailed e \<Rightarrow> (Some e, v)
      | Handles i \<Rightarrow> serve W db config evs (task_step W i v))"

definition server_main ::
  "('c, 'r, 'w, 'g, 'f, 'h, 'p) server_ops \<Rightarrow> ('f \<Rightarrow> string \<Rightarrow> (io_error + unit) \<times> 'f) \<Rightarrow> (string \<Rightarrow> io_error option) \<Rightarrow>
   ('r, 'w, 'g) event list \<Rightarrow> 'f \<Rightarrow> 'p \<Rightarrow> io_error option \<times> ('c, 'r, 'w, 'g, 'f, 'p) service" where
  "server_main W create_dir_all bind_listener evs f p =
     (let config = ServerConfig_default in
      case create_dir_all f (sftp_root config) of
        (Inl e, f) \<Rightarrow> (Some e, idle_service f p)
      | (Inr _, f) \<Rightarrow>
          (case bind_listener (bind_addr config @ '':'' @ show_nat (unat (port config))) of
             Some e \<Rightarrow> (Some e, idle_service f p)
           | None \<Rightarrow> serve W server_users config evs (idle_service f p)))"

section \<open>The client\<close>

datatype ('s) client_exit =
  Bailed string
| ConnectFailed io_error
| Ran "(unit outcome \<times> 's) option"

definition client_main ::
  "('c, 'r, 'w, 'g) ext_ops \<Rightarrow> bool \<Rightarrow> ('r \<Rightarrow> nat \<Rightarrow> 'r) \<Rightarrow> (string \<Rightarrow> io_error + 'r \<times> 'w) \<Rightarrow> shell_event list \<Rightarrow>
   Args \<Rightarrow> 'g \<Rightarrow> ('c, 'r, 'w, 'g) client_state client_exit" where
  "client_main X chk skip connect schedule args g =
     (if password args = None then Bailed ''Password required (--password)''
      else (case connect (host args @ '':'' @ show_nat (unat (arg_port args))) of
              Inl e \<Rightarrow> ConnectFailed e
            | Inr (r, w) \<Rightarrow> Ran (run_client X chk skip schedule args r w g)))"

section \<open>One connection\<close>

text \<open>The service while one task, the first, runs alone.\<close>

definition solo :: "('c, 'r, 'w, 'g, 'f, 'p) server_state \<Rightarrow> ('c, 'r, 'w, 'g, 'f, 'p) service" where
  "solo s = \<lparr>live = [0 \<mapsto> s], disk = snd (sftp_state s), processes = procs s, accepted = 1\<rparr>"

definition finished :: "('c, 'r, 'w, 'g, 'f, 'p) server_state \<Rightarrow> ('c, 'r, 'w, 'g, 'f, 'p) service" where
  "finished s = \<lparr>live = Map.empty, disk = snd (sftp_state s), processes = procs s, accepted = 1\<rparr>"

lemma solo_step:
  "server_step W s = (Ok False, s') \<Longrightarrow> task_step W 0 (solo s) = solo s'"
  "server_step W s = (r, s') \<Longrightarrow> r \<noteq> Ok False \<Longrightarrow> task_step W 0 (solo s) = finished s'"
proof -
  have view: "s\<lparr>sftp_state := (fst (sftp_state s), snd (sftp_state s)), procs := procs s\<rparr> = s" by simp
  show "server_step W s = (Ok False, s') \<Longrightarrow> task_step W 0 (solo s) = solo s'"
    by (simp add: task_step_def solo_def view)
  show "server_step W s = (r, s') \<Longrightarrow> r \<noteq> Ok False \<Longrightarrow> task_step W 0 (solo s) = finished s'"
    by (cases r) (simp_all add: task_step_def solo_def finished_def view)
qed

lemma solo_iterates:
  "iterates_to (server_step W) s t \<Longrightarrow>
     \<exists>n. \<forall>evs. serve W db config (replicate n (Handles 0) @ evs) (solo s) = serve W db config evs (solo t)"
proof (induction rule: iterates_to.induct)
  case (here s)
  then show ?case by (intro exI [of _ 0]) simp
next
  case (again s s' t)
  then obtain n where "\<forall>evs. serve W db config (replicate n (Handles 0) @ evs) (solo s') = serve W db config evs (solo t)" by blast
  then show ?case by (intro exI [of _ "Suc n"]) (simp add: solo_step(1) [OF again.hyps(1)])
qed

lemma solo_loop:
  assumes "loop_st (server_step W) s = Some (res, s')"
  shows "\<exists>n. serve W db config (replicate n (Handles 0)) (solo s) = (None, finished s')"
proof -
  from loop_st_last [OF assms] obtain t r where t: "iterates_to (server_step W) s t" "server_step W t = (r, s')" "r \<noteq> Ok False"
    by (cases res) (auto simp: leaves_at_def)
  from solo_iterates [OF t(1)] obtain n where
    "serve W db config (replicate n (Handles 0) @ [Handles 0]) (solo s) = serve W db config [Handles 0] (solo t)" by blast
  then show ?thesis by (intro exI [of _ "Suc n"]) (simp add: solo_step(2) [OF t(2,3)] replicate_append_same)
qed



section \<open>Any number of connections\<close>

text \<open>What holds of an idle service and is kept by accepting and by the steps of the tasks holds for
  every schedule.\<close>

lemma serve_invariant:
  assumes "serve W db config evs v = (e, v')" and "P v"
    and "\<And>r w g u. P u \<Longrightarrow> Accepted r w g \<in> set evs \<Longrightarrow> P (spawn_task W db config r w g u)"
    and "\<And>i u. P u \<Longrightarrow> P (task_step W i u)"
  shows "P v'"
  using assms
proof (induction evs arbitrary: v)
  case (Cons ev evs)
  then show ?case by (cases ev) auto
qed simp

lemma spawn_cases:
  "spawn_task W db config r w g v = v\<lparr>accepted := accepted v + 1\<rparr> \<or>
   (\<exists>e. server_login (net W) db \<lparr>rdr = r, wtr = w, sess = SessionKeys_new, rng = g\<rparr> = Some (Ok (), e) \<and>
      spawn_task W db config r w g v = v\<lparr>live := (live v)(accepted v \<mapsto> (server_start config r w g (disk v) (processes v))\<lparr>conn := e\<rparr>),
        accepted := accepted v + 1\<rparr>)"
  by (auto simp: spawn_task_def run_on_conn_def server_start_def split: option.splits outcome.splits)

lemma task_cases:
  assumes "task_step W i v \<noteq> v"
  obtains s r s' where "live v i = Some s"
    "server_step W (s\<lparr>sftp_state := (fst (sftp_state s), disk v), procs := processes v\<rparr>) = (r, s')"
    "disk (task_step W i v) = snd (sftp_state s')"
    "live (task_step W i v) = (live v)(i := None) \<or> live (task_step W i v) = (live v)(i \<mapsto> s')"
  using assms by (auto simp: task_step_def split: option.splits prod.splits outcome.splits if_splits)

definition tasks_below :: "string \<Rightarrow> string \<Rightarrow> ('c, 'r, 'w, 'g, 'f, 'p) service \<Rightarrow> bool" where
  "tasks_below r root v \<longleftrightarrow> (\<forall>i s. live v i = Some s \<longrightarrow> paths_below r root (fst (sftp_state s)))"

lemma task_step_confined:
  assumes "stable_root (files W) r root" and "confined_fs (files W) view hp" and "\<not> path_starts_with q root"
    and "tasks_below r root v"
  shows "tasks_below r root (task_step W i v) \<and> view (disk (task_step W i v)) q = view (disk v) q"
proof (cases "task_step W i v = v")
  case True
  with assms(4) show ?thesis by simp
next
  case False
  then obtain s b s' where s: "live v i = Some s"
    "server_step W (s\<lparr>sftp_state := (fst (sftp_state s), disk v), procs := processes v\<rparr>) = (b, s')"
    "disk (task_step W i v) = snd (sftp_state s')"
    "live (task_step W i v) = (live v)(i := None) \<or> live (task_step W i v) = (live v)(i \<mapsto> s')"
    by (rule task_cases)
  have "paths_below r root (fst (sftp_state s))" using assms(4) s(1) by (simp add: tasks_below_def)
  with file_steps_confined [OF _ assms(1-3)]
    server_step_evolves [where part = sftp_state, OF server_message_files _ s(2)]
  have "paths_below r root (fst (sftp_state s')) \<and> view (snd (sftp_state s')) q = view (disk v) q" by simp
  with s(3,4) assms(4) show ?thesis by (auto simp: tasks_below_def split: if_splits)
qed



text \<open>The service changes something, or has a task in its channel loop, only when one of the accepted
  connections has presented a credential of the database.\<close>

lemma service_needs_credential:
  "case serve W db config evs (idle_service f p) of (res, v) \<Rightarrow>
     (disk v = f \<and> processes v = p \<and> live v = Map.empty) \<or>
     (\<exists>r w g e0 e e1 pkt req. Accepted r w g \<in> set evs \<and>
        bind_st (server_handshake (net W)) (\<lambda>_. server_service (net W))
          \<lparr>rdr = r, wtr = w, sess = SessionKeys_new, rng = g\<rparr> = (Ok (), e0) \<and>
        iterates_to (server_auth_step (net W) db) e0 e \<and>
        recv_packet (net W) e = (Ok pkt, e1) \<and> msg_type pkt = msg_u8 UserAuthRequest \<and>
        AuthRequest_parse (payload pkt) = Ok req \<and> credential_accepted db req)"
proof -
  let ?login = "\<lambda>r w g e. server_login (net W) db \<lparr>rdr = r, wtr = w, sess = SessionKeys_new, rng = g\<rparr> = Some (Ok (), e)"
  let ?P = "\<lambda>u. (live u = Map.empty \<and> disk u = f \<and> processes u = p) \<or> (\<exists>r w g e. Accepted r w g \<in> set evs \<and> ?login r w g e)"
  obtain res v where v: "serve W db config evs (idle_service f p) = (res, v)" by fastforce
  have "?P v"
  proof (rule serve_invariant [OF v, where P = ?P])
    show "?P (idle_service f p)" by (simp add: idle_service_def)
    show "?P (spawn_task W db config r w g u)" if "?P u" "Accepted r w g \<in> set evs" for r w g u
      using that spawn_cases [of W db config r w g u] by auto
    show "?P (task_step W i u)" if "?P u" for i u
      using that by (auto simp: task_step_def)
  qed
  then show ?thesis unfolding v prod.case using login_credential by blast
qed

lemma server_users_accepted:
  "credential_accepted server_users req \<longleftrightarrow>
     (\<exists>pw. credential req = Password pw \<and> (username req, pw) \<in> {(''admin'', ''admin''), (''user'', ''password'')})"
  by (auto simp: credential_accepted_def server_users_def UserDatabase_new_def add_password_user_def verify_password_def
      is_key_authorized_def split: Credential.splits if_splits)

text \<open>C5. The server program changes something only for its two users: unless one of the accepted
  connections has completed the handshake and sent, in a message of its authentication loop, the
  password \<open>admin\<close> of \<open>admin\<close> or \<open>password\<close> of \<open>user\<close>, the file system is what creating the root
  directory left, no program has been run and no task is in its channel loop, whatever was received.
  Public keys do not help: none is authorized.\<close>

theorem server_main_needs_password:
  "case server_main W create_dir_all bind_listener evs f p of (res, v) \<Rightarrow>
     (disk v = snd (create_dir_all f ''/tmp/swiftssh'') \<and> processes v = p \<and> live v = Map.empty) \<or>
     (\<exists>r w g e0 e e1 pkt req pw. Accepted r w g \<in> set evs \<and>
        bind_st (server_handshake (net W)) (\<lambda>_. server_service (net W))
          \<lparr>rdr = r, wtr = w, sess = SessionKeys_new, rng = g\<rparr> = (Ok (), e0) \<and>
        iterates_to (server_auth_step (net W) server_users) e0 e \<and>
        recv_packet (net W) e = (Ok pkt, e1) \<and> msg_type pkt = msg_u8 UserAuthRequest \<and>
        AuthRequest_parse (payload pkt) = Ok req \<and> credential req = Password pw \<and>
        (username req, pw) \<in> {(''admin'', ''admin''), (''user'', ''password'')})"
proof -
  obtain b d where d: "create_dir_all f ''/tmp/swiftssh'' = (b, d)" by fastforce
  have root: "sftp_root ServerConfig_default = ''/tmp/swiftssh''" by (simp add: ServerConfig_default_def)
  consider e where "server_main W create_dir_all bind_listener evs f p = (Some e, idle_service d p)"
    | "server_main W create_dir_all bind_listener evs f p = serve W server_users ServerConfig_default evs (idle_service d p)"
    using d by (cases b; cases "bind_listener (bind_addr ServerConfig_default @ '':'' @ show_nat (unat (port ServerConfig_default)))")
      (simp_all add: server_main_def Let_def root)
  then show ?thesis
  proof cases
    case 1
    then show ?thesis by (simp add: idle_service_def d)
  next
    case 2
    show ?thesis
      using service_needs_credential [where W = W and db = server_users and config = ServerConfig_default and evs = evs and f = d and p = p]
      unfolding 2 d server_users_accepted snd_conv split_beta by blast
  qed
qed

text \<open>A new task never takes the place of a live one, and a step of a task leaves the others alone.\<close>

lemma live_below_accepted:
  assumes "serve W db config evs (idle_service f p) = (e, v)" and "live v i = Some s"
  shows "i < accepted v"
proof -
  have "\<forall>i s. live v i = Some s \<longrightarrow> i < accepted v"
  proof (rule serve_invariant [OF assms(1), where P = "\<lambda>v. \<forall>i s. live v i = Some s \<longrightarrow> i < accepted v"])
    show "\<forall>i s. live (idle_service f p) i = Some s \<longrightarrow> i < accepted (idle_service f p)" by (simp add: idle_service_def)
    show "\<forall>i s. live (spawn_task W db config r w g u) i = Some s \<longrightarrow> i < accepted (spawn_task W db config r w g u)"
      if "\<forall>i s. live u i = Some s \<longrightarrow> i < accepted u" for r w g u
      using that spawn_cases [of W db config r w g u] by (auto split: if_splits simp: less_Suc_eq)
    show "\<forall>i s. live (task_step W j u) i = Some s \<longrightarrow> i < accepted (task_step W j u)"
      if "\<forall>i s. live u i = Some s \<longrightarrow> i < accepted u" for j u
      using that by (auto simp: task_step_def split: option.splits prod.splits if_splits)
  qed
  with assms(2) show ?thesis by blast
qed

lemma task_step_others: "j \<noteq> i \<Longrightarrow> live (task_step W i v) j = live v j"
  by (simp add: task_step_def split: option.splits prod.splits)

text \<open>The client never connects without a password, so that the empty password \<open>client_auth\<close> falls back
  to is never sent.\<close>

lemma client_main_password:
  "client_main X chk skip connect schedule args g = Ran x \<Longrightarrow> \<exists>pw. password args = Some pw"
  by (auto simp: client_main_def split: if_splits)

end
