(* ===== verification/Spec2Isabelle.thy ===== *)
theory Spec2Isabelle
  imports Remote_Sessions Programs
begin

text \<open>
  \<^bold>\<open>SwiftSSH: a verification library\<close>

  SwiftSSH is an SSH-2 server and client in Rust. A connection is a stack: binary packets
  (\<open>packet\<close>) travel over a byte stream, encrypted and authenticated under the session keys
  (\<open>crypto\<close>, \<open>session\<close>, \<open>transport/io.rs\<close>) that a Diffie-Hellman exchange agreed on
  (\<open>transport/kex.rs\<close>); on top of it a user logs in (\<open>auth\<close>), channels are multiplexed
  (\<open>connection\<close>), and a channel runs a command or carries file transfer requests (\<open>sftp\<close>).
  \<open>bin/server.rs\<close> and \<open>bin/client.rs\<close> drive the stack from the two ends.

  \<^bold>\<open>How code is modelled\<close>

  Structs are records, enums are datatypes, \<open>u8\<close>, \<open>u32\<close> and \<open>u64\<close> are words of that width,
  \<open>Vec<u8>\<close> is a list of bytes, a \<open>String\<close> is the list of the characters of its UTF-8 bytes, a
  \<open>HashMap\<close> is a map, with a parameter for the iteration order where the code iterates.
  \<open>Result\<close> is the type \<open>outcome\<close>, whose third value \<open>Panic\<close> is a panic; code with state is a
  function from the state to a result and a new state (\<open>stateful\<close>), sequenced by \<open>bind_st\<close>, so
  that every \<open>?\<close> of the source is an early return of the model with the state as it is at that
  point. Additions the code leaves unchecked take the build's overflow mode as an argument.
  A loop whose end is decided by the peer is \<open>loop_st\<close>, which has the value \<open>None\<close> when it does
  not end; no fuel is used anywhere.

  Everything outside the repository is a parameter: the records \<open>crypto_ops\<close> (SHA-256, HMAC, the
  AES-CTR key stream), \<open>ext_ops\<close> (also the two halves of the stream, the random source and X25519),
  \<open>fs_ops\<close> (the calls to \<open>std::fs\<close>) and \<open>server_ops\<close> (also running a program). What the code relies
  on is stated as named laws: \<open>stream_cipher\<close>, \<open>mac_verifies\<close>, \<open>reader_law\<close>, \<open>writer_law\<close>,
  \<open>fills\<close> (together \<open>link_laws\<close>), \<open>dh_commutes\<close>, \<open>iterates\<close>, \<open>stable_root\<close>, \<open>canonical_paths\<close>,
  \<open>confined_fs\<close>, \<open>reads_bounded\<close>, \<open>stores_files\<close>. Each law is discharged for a concrete instance
  (\<open>demo_crypto\<close>, \<open>demo_ext\<close>, \<open>demo_fs\<close>, \<open>demo_world\<close>) in the theory that uses it.

  \<^bold>\<open>Theories\<close>

  \<^item> \<open>Prelude\<close>: words and big-endian bytes, UTF-8, strings. \<open>Errors\<close> (\<open>error/mod.rs\<close>): the error
    enum, outcomes, sequencing, and \<open>keeps\<close>, code that leaves a part of its state alone.
    \<open>Loops\<close>: \<open>loop_st\<close> and the contract \<open>consuming_loop\<close> under which it returns.
  \<^item> \<open>Packet_Types\<close> (\<open>packet/types.rs\<close>) and \<open>Packet_Codec\<close> (\<open>packet/codec.rs\<close>): message numbers,
    packets and wire types; round trips, alignment, capacity, totality. The contract of a wire
    type is the locale \<open>wire_item\<close>.
  \<^item> \<open>Crypto\<close> (\<open>crypto/mod.rs\<close>): cipher pairs, MACs and key derivation; agreement of the two mpint
    encoders and of the key derivation with RFC 4253, section 7.2.
  \<^item> \<open>Session\<close> (\<open>session/mod.rs\<close>): keys, sequence numbers, and when two sessions fit.
  \<^item> \<open>Transport_IO\<close> (\<open>transport/io.rs\<close>): packets and version lines on a stream; delivery in order
    (locale \<open>packet_link\<close>), what the MAC check guarantees, what a packet consumes, how reception
    fails.
  \<^item> \<open>Kex\<close> (\<open>transport/kex.rs\<close>): both sides of the exchange; agreement, and what the exchange hash binds.
  \<^item> \<open>Handshake\<close> (the first half of \<open>handle_connection\<close> and \<open>run_client\<close>): both sides complete it
    against each other and end in matched sessions.
  \<^item> \<open>Auth\<close> (\<open>auth/mod.rs\<close>): the user database and the authentication messages.
  \<^item> \<open>Connection\<close> (\<open>connection/mod.rs\<close>): the channel table as a state machine, windows, messages;
    the allocation of identifiers is the locale \<open>id_alloc\<close>, which the handles of \<open>Sftp\<close> use too.
  \<^item> \<open>Sftp_Protocol\<close>, \<open>Sftp_Path\<close>, \<open>Sftp\<close> (\<open>sftp/mod.rs\<close>): packets and attributes, path
    resolution over \<open>std::path\<close>, and the request handlers; confinement to the root directory,
    the invariant of the handle table, answers to every request, and what writes store and reads
    return.
  \<^item> \<open>Peer\<close>: what the two programs share, a connection with a channel table and the receive loop.
    \<open>Server\<close> (\<open>bin/server.rs\<close>): service request, authentication, channel loop; nothing happens
    before authentication, every connection ends, and no connection changes a file outside the
    root. \<open>Client\<close> (\<open>bin/client.rs\<close>): login, session channel, running a command, the
    interactive mode; nothing is printed before login, and a client that runs a command ends.
  \<^item> \<open>Dialogue\<close>: rules for two programs that read what the other writes. \<open>Remote_Command\<close>: the
    server and the client against each other, from the version exchange to the disconnect.
    \<open>Remote_Sessions\<close>: a login that is rejected, and a file transfer request on a channel.
  \<^item> \<open>Programs\<close> (\<open>main\<close> of both programs): the accept loop of the server and its tasks over a shared
    file system, for every interleaving of messages; one connection alone is \<open>handle_connection\<close>, no
    number of connections changes a file outside the root, and without a password of one of the two
    users nothing changes but that the root directory exists.

  \<^bold>\<open>Bounds\<close>

  Statements about whole conversations bound user name, password, command and output by 34000
  bytes each: with their framing they fit a packet, whose payload the codec limits to 34986 bytes
  under encryption (shown in \<open>Packet_Codec\<close>). Lengths stored in 32-bit fields are assumed to
  fit where a statement says so.

  \<^bold>\<open>Not modelled\<close>

  Sockets, the runtime that schedules tasks, logging and the parsing of command line arguments are
  library code. Connections share the immutable user database, the file system and the processes; in
  \<open>Programs\<close> a task handles one message at a time, so that two handlers on two threads do not
  overlap within a message. The interactive mode of the client is modelled for any schedule of its
  \<open>select!\<close>; the task that reads standard input is that schedule. The unit tests of the source are
  not modelled. Timing, and the zeroing of keys when they are dropped, have no counterpart.
\<close>

end
